theory Spec2Isabelle
  imports Main "HOL-Library.Multiset" "HOL-Library.Char_ord" "HOL-Library.List_Lexorder"
begin

section \<open>Exceptions\<close>

text \<open>
  Every exception the normalize stage can see is a value.  The two kinds the code
  names in an \<open>except\<close> clause are \<open>CannotCoerceColumnException\<close> and
  \<open>SchemaNotFoundError\<close>; the others are raised by Python itself or by the
  collaborators and only propagate.
\<close>

datatype error =
    ZeroDivisionError
  | IndexError
  | UnboundLocalError
  | ValueError
  | TerminalValueError
  | FileNotFoundError string
  | CannotCoerceColumnException string
  | SchemaNotFoundError
  | SignalReceivedException
  | OtherException string

section \<open>Splitting the files of a load among the workers\<close>

text \<open>
  Modelled from the spec: \<open>dlt.common.utils.chunks\<close> is imported by
  \<open>normalize.py\<close> and is not part of the sources at hand.  The spec calls it the
  simple chunking of the file list into consecutive slices of \<open>chunk_size\<close> files,
  the last one possibly shorter:
  \<^verbatim>\<open>for i in range(0, len(seq), n): yield seq[i:i + n]\<close>.
  \<open>group_worker_files\<close> calls it with \<open>n \<ge> 1\<close> only.
\<close>

function chunks :: "'a list \<Rightarrow> nat \<Rightarrow> 'a list list" where
  "chunks seq n = (if seq = [] \<or> n = 0 then [] else take n seq # chunks (drop n seq) n)"
  by pat_completeness auto
termination
  by (relation "measure (\<lambda>(seq, n). length seq)") auto

declare chunks.simps [simp del]

text \<open>
  Python's list indexing: a negative index counts from the end, and an index outside
  \<open>-len \<dots> len - 1\<close> raises \<open>IndexError\<close> (here \<open>None\<close>).
\<close>

definition py_index :: "nat \<Rightarrow> int \<Rightarrow> nat option" where
  "py_index len i =
     (let j = (if i < 0 then int len + i else i)
      in if 0 \<le> j \<and> j < int len then Some (nat j) else None)"

text \<open>
  The inner loop of \<open>group_worker_files\<close>,
  \<^verbatim>\<open>for idx, file in enumerate(reversed(chunk_files.pop())):
      chunk_files[-l_idx - idx - remainder_l].append(file)\<close>
  run on the files still to enumerate, \<open>idx\<close> being the index of the first of them.
\<close>

fun distribute :: "'a list list \<Rightarrow> int \<Rightarrow> int \<Rightarrow> nat \<Rightarrow> 'a list \<Rightarrow> error + 'a list list" where
  "distribute chunk_files l_idx remainder_l idx [] = Inr chunk_files"
| "distribute chunk_files l_idx remainder_l idx (file # rest) =
     (case py_index (length chunk_files) (- l_idx - int idx - remainder_l) of
        None \<Rightarrow> Inl IndexError
      | Some j \<Rightarrow>
          distribute (chunk_files[j := chunk_files ! j @ [file]]) l_idx remainder_l (Suc idx) rest)"

text \<open>
  The \<open>while remainder_l > 0\<close> loop.  \<open>idx\<close> is the loop variable of the inner
  loop as Python keeps it after the loop: unbound (\<open>None\<close>) until the inner loop has
  run its body once, and then the last index enumerated.
\<close>

function redistribute ::
  "'a list list \<Rightarrow> int \<Rightarrow> int \<Rightarrow> int option \<Rightarrow> error + 'a list list" where
  "redistribute chunk_files remainder_l l_idx idx =
     (if remainder_l > 0 then
        (if chunk_files = [] then Inl IndexError
         else
           let popped = last chunk_files;
               chunk_files1 = butlast chunk_files
           in (case distribute chunk_files1 l_idx remainder_l 0 (rev popped) of
                 Inl e \<Rightarrow> Inl e
               | Inr chunk_files2 \<Rightarrow>
                   (let idx1 = (if popped = [] then idx else Some (int (length popped) - 1))
                    in (case idx1 of
                          None \<Rightarrow> Inl UnboundLocalError
                        | Some i \<Rightarrow> redistribute chunk_files2 (remainder_l - 1) (i + 1) idx1))))
      else Inr chunk_files)"
  by pat_completeness auto
termination
  by (relation "measure (\<lambda>(chunk_files, remainder_l, l_idx, idx). nat remainder_l)") auto

declare redistribute.simps [simp del]

definition group_worker_files :: "'a::linorder list \<Rightarrow> int \<Rightarrow> error + 'a list list" where
  "group_worker_files files no_groups =
     (if no_groups = 0 then Inl ZeroDivisionError
      else
        let files1 = sort files;
            chunk_size = max (int (length files1) div no_groups) 1;
            chunk_files = chunks files1 (nat chunk_size);
            remainder_l = int (length chunk_files) - no_groups
        in redistribute chunk_files remainder_l 0 None)"


section \<open>The worker task\<close>

subsection \<open>File formats and destination capabilities\<close>

text \<open>
  Modelled from the spec: \<open>TLoaderFileFormat\<close> is imported from
  \<open>dlt.common.destination\<close> and its declaration is not part of the sources at
  hand.  The spec describes a closed enumeration whose minimum members are
  \<open>jsonl\<close>, \<open>parquet\<close> and the internal \<open>arrow\<close>; any further member is
  \<open>Other_format\<close> with a number.  Every member is a non-empty string literal, so
  every format is truthy in Python.
\<close>

datatype TLoaderFileFormat = Jsonl | Parquet | Arrow | Other_format nat

text \<open>
  Python's \<open>a or b\<close> on two optional formats: \<open>a\<close> unless it is \<open>None\<close>.
\<close>

definition py_or :: "'a option \<Rightarrow> 'a option \<Rightarrow> 'a option" where
  "py_or a b = (case a of Some x \<Rightarrow> Some x | None \<Rightarrow> b)"

text \<open>
  Lists of formats are Python objects that the worker shares and appends to, so they
  live in a store: \<open>cells\<close> gives the content of the list at an address and
  \<open>next_addr\<close> is the first address not yet in use.
\<close>

type_synonym addr = nat

record store =
  cells :: "addr \<Rightarrow> TLoaderFileFormat list"
  next_addr :: addr

definition new_list :: "store \<Rightarrow> TLoaderFileFormat list \<Rightarrow> addr \<times> store" where
  "new_list h xs = (next_addr h, h\<lparr>cells := (cells h)(next_addr h := xs), next_addr := Suc (next_addr h)\<rparr>)"

definition list_append :: "store \<Rightarrow> addr \<Rightarrow> TLoaderFileFormat \<Rightarrow> store" where
  "list_append h a x = h\<lparr>cells := (cells h)(a := cells h a @ [x])\<rparr>"

text \<open>
  The fields of \<open>DestinationCapabilities\<close> the worker reads.
  \<open>supported_loader_file_formats\<close> is \<open>None\<close> or a reference to a list object.
\<close>

record DestinationCapabilities =
  preferred_loader_file_format :: "TLoaderFileFormat option"
  preferred_staging_file_format :: "TLoaderFileFormat option"
  supported_loader_file_formats :: "addr option"

subsection \<open>Load storages, normalizers and what they are seen to do\<close>

text \<open>
  A \<open>LoadStorage\<close> as the worker constructs it,
  \<^verbatim>\<open>LoadStorage(False, file_format, supported_formats, loader_storage_config)\<close>:
  the owner flag, the write format and the reference to the list of supported formats
  it was given (the configuration is passed through unchanged and is left out).
  The worker keeps its instances in the dictionary \<open>load_storages\<close>, one per write
  format, and never replaces one, so an instance is named by its key.
\<close>

record LoadStorage =
  is_owner :: bool
  preferred_file_format :: "TLoaderFileFormat option"
  supported_file_formats :: addr

datatype klass = ParquetItemsNormalizer | JsonLItemsNormalizer

text \<open>
  The calls the worker makes on its collaborators, in order: a load storage
  instantiated under a key, a normalizer (of a class, built on the storage with that
  key) called on a file for a root table, \<open>write_empty_file\<close> and
  \<open>close_writers\<close> called on the storage with that key.
\<close>

datatype wevent =
    Storage_created "TLoaderFileFormat option"
  | Normalizer_called klass "TLoaderFileFormat option" string string
  | Write_empty_file "TLoaderFileFormat option" string string
  | Close_writers "TLoaderFileFormat option" string

text \<open>
  Modelled from the spec: \<open>TRowCount\<close>, \<open>merge_row_count\<close> and
  \<open>increase_row_count\<close> are imported from \<open>dlt.common.utils\<close>, which is not
  part of the sources at hand.  A row count maps a table name to an integer; merging
  is addition per key over the keys of both, and increasing adds to one key, a missing
  key counting as 0.
\<close>

type_synonym TRowCount = "string \<rightharpoonup> int"

definition row_count_get :: "TRowCount \<Rightarrow> string \<Rightarrow> int" where
  "row_count_get rc k = (case rc k of Some c \<Rightarrow> c | None \<Rightarrow> 0)"

definition merge_row_count :: "TRowCount \<Rightarrow> TRowCount \<Rightarrow> TRowCount" where
  "merge_row_count row_counts_1 row_counts_2 =
     (\<lambda>key. if row_counts_1 key = None \<and> row_counts_2 key = None then None
            else Some (row_count_get row_counts_1 key + row_count_get row_counts_2 key))"

definition increase_row_count :: "TRowCount \<Rightarrow> string \<Rightarrow> int \<Rightarrow> TRowCount" where
  "increase_row_count row_counts table_name cnt =
     row_counts(table_name \<mapsto> row_count_get row_counts table_name + cnt)"

text \<open>
  The collaborators of the worker, whose code is outside \<open>normalize.py\<close>.  The
  schema is a black box of type \<open>'schema\<close>; a partial schema update has type
  \<open>'upd\<close>.
  \<^item> \<open>from_stored_schema\<close>: \<open>Schema.from_stored_schema\<close>.
  \<^item> \<open>parse_normalize_file_name\<close>: the table name and the file format of an
    extracted file, or the exception for a malformed name.
  \<^item> \<open>normalize_table_identifier\<close>: \<open>schema.naming.normalize_table_identifier\<close>.
  \<^item> \<open>normalizer_call\<close>: calling a normalizer of the given class on a file and a
    root table.  The normalizer holds the worker's schema and may widen it; it either
    raises or returns the partial updates, the item count and the row counts.
  \<^item> \<open>has_table\<close>: \<open>table_name in schema.tables\<close>.
  \<^item> \<open>load_storage_init\<close>: the constructor
    \<^verbatim>\<open>LoadStorage(is_owner, file_format, supported_formats, config)\<close>, which may
    refuse its arguments: the exception, if any, that it raises for the owner flag,
    the write format and the content of the list of supported formats it is handed.
  \<^item> \<open>storage_raises\<close>: the exception, if any, with which a call on a load storage
    fails, given the calls made so far.
  \<^item> \<open>closed_files\<close>: what \<open>closed_files()\<close> of the storage with the given key
    returns after the calls made so far.
\<close>

record ('schema, 'stored, 'upd) worker_env =
  from_stored_schema :: "'stored \<Rightarrow> 'schema"
  parse_normalize_file_name :: "string \<Rightarrow> error + (string \<times> TLoaderFileFormat)"
  normalize_table_identifier :: "'schema \<Rightarrow> string \<Rightarrow> string"
  normalizer_call ::
    "klass \<Rightarrow> 'schema \<Rightarrow> string \<Rightarrow> string \<Rightarrow> 'schema \<times> (error + ('upd list \<times> int \<times> TRowCount))"
  has_table :: "'schema \<Rightarrow> string \<Rightarrow> bool"
  load_storage_init :: "bool \<Rightarrow> TLoaderFileFormat option \<Rightarrow> TLoaderFileFormat list \<Rightarrow> error option"
  storage_raises :: "wevent list \<Rightarrow> wevent \<Rightarrow> error option"
  closed_files :: "TLoaderFileFormat option \<Rightarrow> wevent list \<Rightarrow> string list"

subsection \<open>The state of one call of \<open>w_normalize_files\<close>\<close>

text \<open>
  The local variables of \<open>w_normalize_files\<close> and of its two nested functions,
  the store of list objects, and the calls made so far.  \<open>load_storage\<close> is the
  variable of that name: the key of the instance it is bound to.  An entry of
  \<open>item_normalizers\<close> is the class of the normalizer and the key of the storage it
  was built on.  The two sets of root tables are lists without duplicates, in the
  order of insertion; Python leaves open in which order the second loop goes over the
  difference of the two sets, and the model takes this one.
\<close>

record ('schema, 'upd) wstate =
  heap :: store
  load_storages :: "(TLoaderFileFormat option \<times> LoadStorage) list"
  item_normalizers :: "(TLoaderFileFormat \<times> klass \<times> TLoaderFileFormat option) list"
  schema_w :: 'schema
  load_storage :: "TLoaderFileFormat option"
  schema_updates_w :: "'upd list"
  total_items :: int
  row_counts_w :: TRowCount
  root_tables :: "string list"
  populated_root_tables :: "string list"
  trace :: "wevent list"

definition set_add :: "'a list \<Rightarrow> 'a \<Rightarrow> 'a list" where
  "set_add xs x = (if x \<in> set xs then xs else xs @ [x])"

subsection \<open>\<open>_get_load_storage\<close> and \<open>_get_items_normalizer\<close>\<close>

text \<open>
  \<^verbatim>\<open>supported_formats = destination_caps.supported_loader_file_formats or []\<close>:
  the list of the capabilities itself when it is there and not empty, a new empty list
  otherwise.
\<close>

definition supported_or_empty :: "DestinationCapabilities \<Rightarrow> store \<Rightarrow> addr \<times> store" where
  "supported_or_empty destination_caps h =
     (case supported_loader_file_formats destination_caps of
        Some a \<Rightarrow> if cells h a \<noteq> [] then (a, h) else new_list h []
      | None \<Rightarrow> new_list h [])"

text \<open>
  \<open>_get_load_storage\<close>.  \<open>arrow\<close> is appended to the list before the
  dictionary is looked up and before a storage is constructed, so the store is changed
  also when the constructor raises.  The result is the state after the call and the
  exception raised or the key of the storage returned.
\<close>

definition get_load_storage ::
  "('schema, 'stored, 'upd) worker_env \<Rightarrow> DestinationCapabilities \<Rightarrow> TLoaderFileFormat option
     \<Rightarrow> ('schema, 'upd) wstate
     \<Rightarrow> ('schema, 'upd) wstate \<times> (error + TLoaderFileFormat option)" where
  "get_load_storage env destination_caps file_format st =
     (let (supported_formats, h1) = supported_or_empty destination_caps (heap st);
          (file_format1, h2) =
            (if file_format = Some Parquet then
               (if Parquet \<in> set (cells h1 supported_formats) then
                  (Some Arrow, list_append h1 supported_formats Arrow)
                else
                  (py_or (preferred_loader_file_format destination_caps)
                         (preferred_staging_file_format destination_caps), h1))
             else
               (py_or (preferred_loader_file_format destination_caps)
                      (preferred_staging_file_format destination_caps), h1));
          st1 = st\<lparr>heap := h2\<rparr>
      in (case map_of (load_storages st) file_format1 of
            Some storage \<Rightarrow> (st1, Inr file_format1)
          | None \<Rightarrow>
              (case load_storage_init env False file_format1 (cells h2 supported_formats) of
                 Some e \<Rightarrow> (st1, Inl e)
               | None \<Rightarrow>
                   (st1\<lparr>load_storages := load_storages st @
                          [(file_format1, \<lparr>is_owner = False, preferred_file_format = file_format1,
                                           supported_file_formats = supported_formats\<rparr>)],
                        trace := trace st @ [Storage_created file_format1]\<rparr>,
                    Inr file_format1))))"

definition get_items_normalizer ::
  "('schema, 'stored, 'upd) worker_env \<Rightarrow> DestinationCapabilities \<Rightarrow> TLoaderFileFormat
     \<Rightarrow> ('schema, 'upd) wstate
     \<Rightarrow> ('schema, 'upd) wstate
          \<times> (error + ((klass \<times> TLoaderFileFormat option) \<times> TLoaderFileFormat option))" where
  "get_items_normalizer env destination_caps file_format st =
     (case get_load_storage env destination_caps (Some file_format) st of
        (st1, Inl e) \<Rightarrow> (st1, Inl e)
      | (st1, Inr load_storage1) \<Rightarrow>
          (case map_of (item_normalizers st1) file_format of
             Some norm \<Rightarrow> (st1, Inr (norm, load_storage1))
           | None \<Rightarrow>
               (let klass = (if file_format = Parquet then ParquetItemsNormalizer
                             else JsonLItemsNormalizer);
                    norm = (klass, load_storage1)
                in (st1\<lparr>item_normalizers := item_normalizers st1 @ [(file_format, norm)]\<rparr>,
                    Inr (norm, load_storage1)))))"

subsection \<open>\<open>w_normalize_files\<close>\<close>

text \<open>
  The body of the loop over the extracted files, for one file.  The second component
  is the exception that leaves the body, if any.  Line 135 of the source,
  \<^verbatim>\<open>normalizer, load_storage = _get_items_normalizer(file_format)\<close>,
  binds the variable \<open>load_storage\<close> of \<open>w_normalize_files\<close> anew.
\<close>

definition process_file ::
  "('schema, 'stored, 'upd) worker_env \<Rightarrow> DestinationCapabilities \<Rightarrow> string
     \<Rightarrow> ('schema, 'upd) wstate \<Rightarrow> ('schema, 'upd) wstate \<times> error option" where
  "process_file env destination_caps extracted_items_file st =
     (case parse_normalize_file_name env extracted_items_file of
        Inl e \<Rightarrow> (st, Some e)
      | Inr (table_name, file_format) \<Rightarrow>
          (let root_table_name = normalize_table_identifier env (schema_w st) table_name;
               st1 = st\<lparr>root_tables := set_add (root_tables st) root_table_name\<rparr>
           in (case get_items_normalizer env destination_caps file_format st1 of
                 (st2, Inl e) \<Rightarrow> (st2, Some e)
               | (st2, Inr ((klass, norm_storage), load_storage1)) \<Rightarrow>
                   (let st3 = st2\<lparr>load_storage := load_storage1,
                                  trace := trace st2 @
                                    [Normalizer_called klass norm_storage extracted_items_file
                                       root_table_name]\<rparr>
                    in (case normalizer_call env klass (schema_w st3) extracted_items_file
                               root_table_name of
                          (schema1, Inl e) \<Rightarrow> (st3\<lparr>schema_w := schema1\<rparr>, Some e)
                        | (schema1, Inr (partial_updates, items_count, r_counts)) \<Rightarrow>
                            (let st4 = st3\<lparr>schema_w := schema1,
                                           schema_updates_w := schema_updates_w st3 @ partial_updates,
                                           total_items := total_items st3 + items_count,
                                           row_counts_w :=
                                             merge_row_count (row_counts_w st3) r_counts\<rparr>;
                                 st5 = (if items_count > 0
                                        then st4\<lparr>populated_root_tables :=
                                                    set_add (populated_root_tables st4)
                                                      root_table_name\<rparr>
                                        else st4)
                             in (st5\<lparr>row_counts_w :=
                                        increase_row_count (row_counts_w st5) root_table_name 0\<rparr>,
                                 None)))))))"

fun process_files ::
  "('schema, 'stored, 'upd) worker_env \<Rightarrow> DestinationCapabilities \<Rightarrow> string list
     \<Rightarrow> ('schema, 'upd) wstate \<Rightarrow> ('schema, 'upd) wstate \<times> error option" where
  "process_files env destination_caps [] st = (st, None)"
| "process_files env destination_caps (extracted_items_file # rest) st =
     (case process_file env destination_caps extracted_items_file st of
        (st1, Some e) \<Rightarrow> (st1, Some e)
      | (st1, None) \<Rightarrow> process_files env destination_caps rest st1)"

text \<open>
  The loop that writes the empty jobs, over the tables of
  \<open>root_tables - populated_root_tables\<close>.  The columns handed to
  \<open>write_empty_file\<close> are left out of the recorded call.
\<close>

fun write_empty_jobs ::
  "('schema, 'stored, 'upd) worker_env \<Rightarrow> string \<Rightarrow> string list
     \<Rightarrow> ('schema, 'upd) wstate \<Rightarrow> ('schema, 'upd) wstate \<times> error option" where
  "write_empty_jobs env load_id [] st = (st, None)"
| "write_empty_jobs env load_id (table_name # rest) st =
     (if \<not> has_table env (schema_w st) table_name then write_empty_jobs env load_id rest st
      else
        (let call = Write_empty_file (load_storage st) load_id table_name;
             st1 = st\<lparr>trace := trace st @ [call]\<rparr>
         in (case storage_raises env (trace st) call of
               Some e \<Rightarrow> (st1, Some e)
             | None \<Rightarrow> write_empty_jobs env load_id rest st1)))"

text \<open>
  \<open>w_normalize_files\<close>: the statements before the \<open>try\<close>, the two loops inside
  it, the \<open>finally\<close> clause and the \<open>return\<close>.  The result is the final state
  together with the exception raised or the tuple returned.  The default load storage
  is fetched before the \<open>try\<close>, so an exception of its constructor leaves the
  function with no \<open>close_writers\<close>.  An exception raised by \<open>close_writers\<close>
  in the \<open>finally\<close> clause replaces the one in flight.
\<close>

definition w_normalize_files ::
  "('schema, 'stored, 'upd) worker_env \<Rightarrow> DestinationCapabilities \<Rightarrow> store \<Rightarrow> 'stored \<Rightarrow> string
     \<Rightarrow> string list
     \<Rightarrow> ('schema, 'upd) wstate \<times> (error + ('upd list \<times> int \<times> string list \<times> TRowCount))" where
  "w_normalize_files env destination_caps h stored_schema load_id extracted_items_files =
     (let st0 = \<lparr>heap = h, load_storages = [], item_normalizers = [],
                  schema_w = from_stored_schema env stored_schema,
                  load_storage = None, schema_updates_w = [], total_items = 0,
                  row_counts_w = Map.empty, root_tables = [], populated_root_tables = [],
                  trace = []\<rparr>
      in (case get_load_storage env destination_caps
                 (preferred_loader_file_format destination_caps) st0 of
            (st1, Inl e) \<Rightarrow> (st1, Inl e)
          | (st1, Inr load_storage1) \<Rightarrow>
              (let st2 = st1\<lparr>load_storage := load_storage1\<rparr>;
                   (st3, raised) =
                      (case process_files env destination_caps extracted_items_files st2 of
                         (st, Some e) \<Rightarrow> (st, Some e)
                       | (st, None) \<Rightarrow>
                           write_empty_jobs env load_id
                             (filter (\<lambda>t. t \<notin> set (populated_root_tables st)) (root_tables st))
                             st);
                   close = Close_writers (load_storage st3) load_id;
                   st4 = st3\<lparr>trace := trace st3 @ [close]\<rparr>
               in (case storage_raises env (trace st3) close of
                     Some e \<Rightarrow> (st4, Inl e)
                   | None \<Rightarrow>
                       (case raised of
                          Some e \<Rightarrow> (st4, Inl e)
                        | None \<Rightarrow>
                            (st4, Inr (schema_updates_w st4, total_items st4,
                                       closed_files env (load_storage st4) (trace st4),
                                       row_counts_w st4)))))))"

subsection \<open>A concrete worker call\<close>

text \<open>
  Collaborators for running the worker on concrete files.  The schema is the list of
  its table names.  A file name is \<open>schema.table.id.format\<close>, and two files are
  known: a line-delimited one for table \<open>t1\<close> and a columnar one for table
  \<open>t2\<close>.  The normalizers change nothing in the schema and report \<open>rows_t1\<close>
  rows for the first file and 100 rows for the second.  The constructor of a load
  storage refuses a write format that is not in the list of supported formats it is
  handed, and no other storage call fails.
\<close>

definition example_env :: "int \<Rightarrow> (string list, string list, string) worker_env" where
  "example_env rows_t1 =
     \<lparr>from_stored_schema = (\<lambda>stored. stored),
      parse_normalize_file_name = (\<lambda>f.
         if f = ''s.t1.1.jsonl'' then Inr (''t1'', Jsonl)
         else if f = ''s.t2.2.parquet'' then Inr (''t2'', Parquet)
         else Inl (OtherException ''malformed name'')),
      normalize_table_identifier = (\<lambda>s t. t),
      normalizer_call = (\<lambda>k s f t.
         (s, Inr ([], if f = ''s.t1.1.jsonl'' then rows_t1 else 100,
                  [t \<mapsto> (if f = ''s.t1.1.jsonl'' then rows_t1 else 100)]))),
      has_table = (\<lambda>s t. t \<in> set s),
      load_storage_init = (\<lambda>owner file_format supported.
         (case file_format of
            Some f \<Rightarrow> if f \<in> set supported then None else Some TerminalValueError
          | None \<Rightarrow> None)),
      storage_raises = (\<lambda>tr c. None),
      closed_files = (\<lambda>k tr. [])\<rparr>"

text \<open>
  A destination that prefers \<open>jsonl\<close> and supports \<open>jsonl\<close> and
  \<open>parquet\<close>; the list of its supported formats is the object at address 0.
\<close>

definition example_caps :: DestinationCapabilities where
  "example_caps =
     \<lparr>preferred_loader_file_format = Some Jsonl,
      preferred_staging_file_format = None,
      supported_loader_file_formats = Some 0\<rparr>"

definition example_store :: store where
  "example_store = \<lparr>cells = (\<lambda>a. if a = 0 then [Jsonl, Parquet] else []), next_addr = 1\<rparr>"

subsection \<open>Notions for stating the worker's properties\<close>

text \<open>
  \<open>parquet_supported\<close>: the test \<^verbatim>\<open>file_format in supported_formats\<close> for
  \<open>parquet\<close>, on the capabilities and the store.
\<close>

definition parquet_supported :: "DestinationCapabilities \<Rightarrow> store \<Rightarrow> bool" where
  "parquet_supported destination_caps h =
     (case supported_loader_file_formats destination_caps of
        Some a \<Rightarrow> Parquet \<in> set (cells h a)
      | None \<Rightarrow> False)"

text \<open>
  What holds of the dictionary \<open>load_storages\<close> throughout a call of the worker:
  the list of the capabilities is an object of the store, every instance is kept under
  its own write format, and, when the list of the capabilities is not empty, every
  instance was given that very list.
\<close>

definition storages_wf :: "DestinationCapabilities \<Rightarrow> ('schema, 'upd) wstate \<Rightarrow> bool" where
  "storages_wf destination_caps st =
     ((\<forall>a. supported_loader_file_formats destination_caps = Some a \<longrightarrow> a < next_addr (heap st)) \<and>
      (\<forall>(k, s) \<in> set (load_storages st).
          preferred_file_format s = k \<and>
          (\<forall>a. supported_loader_file_formats destination_caps = Some a \<and> cells (heap st) a \<noteq> []
               \<longrightarrow> supported_file_formats s = a)))"

text \<open>
  The write-format selection rule in the words of the spec: \<open>arrow\<close> for a
  \<open>parquet\<close> input that the destination supports, otherwise the preferred loader
  format, and the preferred staging format when the preferred loader format is null.
\<close>

definition write_format_rule ::
  "DestinationCapabilities \<Rightarrow> store \<Rightarrow> TLoaderFileFormat \<Rightarrow> TLoaderFileFormat option" where
  "write_format_rule destination_caps h file_format =
     (if file_format = Parquet \<and> parquet_supported destination_caps h then Some Arrow
      else (case preferred_loader_file_format destination_caps of
              None \<Rightarrow> preferred_staging_file_format destination_caps
            | Some f \<Rightarrow> Some f))"


text \<open>
  What holds of the dictionary \<open>item_normalizers\<close> throughout a call of the
  worker: the normalizer kept for an input format has the class of that format and
  was built on the storage that the rule names for it.
\<close>

definition normalizers_wf :: "DestinationCapabilities \<Rightarrow> ('schema, 'upd) wstate \<Rightarrow> bool" where
  "normalizers_wf destination_caps st =
     (\<forall>(file_format, norm) \<in> set (item_normalizers st).
         norm = ((if file_format = Parquet then ParquetItemsNormalizer else JsonLItemsNormalizer),
                 write_format_rule destination_caps (heap st) file_format))"


section \<open>The coordinator\<close>

subsection \<open>Merging schema updates into the authoritative schema\<close>

text \<open>
  A \<open>TSchemaUpdate\<close> is a dictionary from a table name to the list of partial
  tables for it, here in the order of its items; \<open>'pt\<close> is the type of a partial
  table.  A worker returns the tuple \<open>TWorkerRV\<close>: its schema updates, the number
  of items, the files it closed and its row counts.
\<close>

type_synonym 'pt TSchemaUpdate = "(string \<times> 'pt list) list"

type_synonym 'pt TWorkerRV = "'pt TSchemaUpdate list \<times> int \<times> string list \<times> TRowCount"

text \<open>
  The parameter tuple of a task,
  \<^verbatim>\<open>(config, normalize_storage.config, load_storage.config, schema_dict, load_id, files)\<close>.
  Its first three components, the configurations, are one value of type \<open>'cfg\<close>;
  the fourth is the schema in value form.
\<close>

type_synonym ('cfg, 'stored) params = "'cfg \<times> 'stored \<times> string \<times> string list"

text \<open>
  The collaborators of the coordinator.
  \<^item> \<open>schema_update_table\<close>: \<open>schema.update_table(partial_table)\<close>, which
    returns the widened schema or raises, a column-coercion conflict among others.
  \<^item> \<open>to_dict\<close>: \<open>schema.to_dict()\<close>, the value form.
  \<^item> \<open>max_workers\<close>: \<^verbatim>\<open>getattr(self.pool, '_max_workers', 1)\<close>.
  \<^item> \<open>task_done\<close>: \<open>pending.done()\<close> for the future with the given number, at
    the given round of polling.
  \<^item> \<open>task_result\<close>: \<open>pending.result()\<close> for a future that is done, that is
    what \<open>w_normalize_files\<close> returned or raised when the pool ran it on the
    parameters.
  \<^item> \<open>os_remove_raises\<close>: the exception, if any, with which \<open>os.remove\<close>
    of a file fails, given the files removed so far.
\<close>

record ('schema, 'stored, 'pt, 'cfg) coord_env =
  schema_update_table :: "'schema \<Rightarrow> 'pt \<Rightarrow> error + 'schema"
  to_dict :: "'schema \<Rightarrow> 'stored"
  max_workers :: int
  task_done :: "nat \<Rightarrow> nat \<Rightarrow> bool"
  task_result :: "nat \<Rightarrow> ('cfg, 'stored) params \<Rightarrow> error + 'pt TWorkerRV"
  os_remove_raises :: "string list \<Rightarrow> string \<Rightarrow> error option"

text \<open>
  \<open>Normalize.update_table\<close>: three nested loops over the updates, the items of
  each and the partial tables of each item.  The schema is changed in place, so when
  \<open>schema.update_table\<close> raises, the partial tables merged before stay merged: the
  result is the schema as it is then, and the exception.
\<close>

fun update_partial_tables ::
  "('schema, 'stored, 'pt, 'cfg) coord_env \<Rightarrow> 'schema \<Rightarrow> 'pt list \<Rightarrow> 'schema \<times> error option" where
  "update_partial_tables env schema [] = (schema, None)"
| "update_partial_tables env schema (partial_table # rest) =
     (case schema_update_table env schema partial_table of
        Inl e \<Rightarrow> (schema, Some e)
      | Inr schema1 \<Rightarrow> update_partial_tables env schema1 rest)"

fun update_table_items ::
  "('schema, 'stored, 'pt, 'cfg) coord_env \<Rightarrow> 'schema \<Rightarrow> 'pt TSchemaUpdate \<Rightarrow> 'schema \<times> error option" where
  "update_table_items env schema [] = (schema, None)"
| "update_table_items env schema ((table_name, table_updates) # rest) =
     (case update_partial_tables env schema table_updates of
        (schema1, Some e) \<Rightarrow> (schema1, Some e)
      | (schema1, None) \<Rightarrow> update_table_items env schema1 rest)"

fun update_table ::
  "('schema, 'stored, 'pt, 'cfg) coord_env \<Rightarrow> 'schema \<Rightarrow> 'pt TSchemaUpdate list \<Rightarrow> 'schema \<times> error option" where
  "update_table env schema [] = (schema, None)"
| "update_table env schema (schema_update # rest) =
     (case update_table_items env schema schema_update of
        (schema1, Some e) \<Rightarrow> (schema1, Some e)
      | (schema1, None) \<Rightarrow> update_table env schema1 rest)"

subsection \<open>\<open>map_parallel\<close>\<close>

text \<open>
  The local variables of \<open>map_parallel\<close> and what it acts on: the authoritative
  schema, the collector (the updates pushed to it, in order), the files removed from
  disk (in order) and the pool (every task submitted, in order; a future is the number of its submission).
\<close>

record ('schema, 'stored, 'pt, 'cfg) mp_state =
  schema_c :: 'schema
  schema_dict :: 'stored
  tasks :: "(nat \<times> ('cfg, 'stored) params) list"
  row_counts_c :: TRowCount
  schema_updates_c :: "'pt TSchemaUpdate list"
  collector_updates :: "(string \<times> int) list"
  removed :: "string list"
  submitted :: "(nat \<times> ('cfg, 'stored) params) list"

text \<open>
  \<open>self.pool.submit(Normalize.w_normalize_files, *params)\<close>: the new future and
  the pool after it.
\<close>

definition submit ::
  "('cfg, 'stored) params \<Rightarrow> ('schema, 'stored, 'pt, 'cfg) mp_state
     \<Rightarrow> nat \<times> ('schema, 'stored, 'pt, 'cfg) mp_state" where
  "submit params st =
     (length (submitted st), st\<lparr>submitted := submitted st @ [(length (submitted st), params)]\<rparr>)"

text \<open>
  \<^verbatim>\<open>for file in result[2]: os.remove(file)\<close>, which stops at the first
  \<open>os.remove\<close> that raises.
\<close>

fun remove_files ::
  "('schema, 'stored, 'pt, 'cfg) coord_env \<Rightarrow> string list \<Rightarrow> string list
     \<Rightarrow> string list \<times> error option" where
  "remove_files env [] rm = (rm, None)"
| "remove_files env (file # rest) rm =
     (case os_remove_raises env rm file of
        Some e \<Rightarrow> (rm, Some e)
      | None \<Rightarrow> remove_files env rest (rm @ [file]))"

text \<open>
  \<open>tasks.remove(task)\<close>: the first element equal to the task is removed, and
  \<open>ValueError\<close> is raised when there is none.
\<close>

definition tasks_remove ::
  "nat \<times> ('cfg, 'stored) params \<Rightarrow> ('schema, 'stored, 'pt, 'cfg) mp_state
     \<Rightarrow> ('schema, 'stored, 'pt, 'cfg) mp_state \<times> error option" where
  "tasks_remove task st =
     (if task \<in> set (tasks st) then (st\<lparr>tasks := remove1 task (tasks st)\<rparr>, None)
      else (st, Some ValueError))"

text \<open>
  The body of \<^verbatim>\<open>for task in list(tasks)\<close> for one task, at one round of
  polling.  The result is the state after it and the exception that leaves it, if any.
\<close>

definition gather_task ::
  "('schema, 'stored, 'pt, 'cfg) coord_env \<Rightarrow> nat \<Rightarrow> nat \<times> ('cfg, 'stored) params
     \<Rightarrow> ('schema, 'stored, 'pt, 'cfg) mp_state
     \<Rightarrow> ('schema, 'stored, 'pt, 'cfg) mp_state \<times> error option" where
  "gather_task env poll task st =
     (let (pending, params) = task
      in if \<not> task_done env poll pending then (st, None)
         else
           (case task_result env pending params of
              Inl e \<Rightarrow> (st, Some e)
            | Inr (result0, result1, result2, result3) \<Rightarrow>
                (case update_table env (schema_c st) result0 of
                   (schema1, None) \<Rightarrow>
                     tasks_remove task
                       (st\<lparr>schema_c := schema1,
                           schema_updates_c := schema_updates_c st @ result0,
                           collector_updates := collector_updates st @
                             [(''Files'', int (length result2)), (''Items'', result1)],
                           row_counts_c := merge_row_count (row_counts_c st) result3\<rparr>)
                 | (schema1, Some (CannotCoerceColumnException exc)) \<Rightarrow>
                     (case remove_files env result2 (removed st) of
                        (removed1, Some e) \<Rightarrow>
                          (st\<lparr>schema_c := schema1, removed := removed1\<rparr>, Some e)
                      | (removed1, None) \<Rightarrow>
                          (let schema_dict1 = to_dict env schema1;
                               (config, old_dict, load_id, files) = params;
                               params1 = (config, schema_dict1, load_id, files);
                               (retry_pending, st1) =
                                  submit params1
                                    (st\<lparr>schema_c := schema1, removed := removed1,
                                        schema_dict := schema_dict1\<rparr>)
                           in tasks_remove task
                                (st1\<lparr>tasks := tasks st1 @ [(retry_pending, params1)]\<rparr>)))
                 | (schema1, Some e) \<Rightarrow> (st\<lparr>schema_c := schema1\<rparr>, Some e))))"

fun gather_tasks ::
  "('schema, 'stored, 'pt, 'cfg) coord_env \<Rightarrow> nat \<Rightarrow> (nat \<times> ('cfg, 'stored) params) list
     \<Rightarrow> ('schema, 'stored, 'pt, 'cfg) mp_state
     \<Rightarrow> ('schema, 'stored, 'pt, 'cfg) mp_state \<times> error option" where
  "gather_tasks env poll [] st = (st, None)"
| "gather_tasks env poll (task # rest) st =
     (case gather_task env poll task st of
        (st1, Some e) \<Rightarrow> (st1, Some e)
      | (st1, None) \<Rightarrow> gather_tasks env poll rest st1)"

text \<open>
  \<^verbatim>\<open>while len(tasks) > 0\<close>: one round of polling per iteration (the sleep is
  left out).  The loop runs as long as a task is pending, so it is given fuel; the
  result is \<open>None\<close> when the fuel runs out before the task list is empty.
\<close>

fun gather_loop ::
  "('schema, 'stored, 'pt, 'cfg) coord_env \<Rightarrow> nat \<Rightarrow> nat
     \<Rightarrow> ('schema, 'stored, 'pt, 'cfg) mp_state
     \<Rightarrow> (('schema, 'stored, 'pt, 'cfg) mp_state \<times> error option) option" where
  "gather_loop env 0 poll st = (if tasks st = [] then Some (st, None) else None)"
| "gather_loop env (Suc fuel) poll st =
     (if tasks st = [] then Some (st, None)
      else
        (case gather_tasks env poll (tasks st) st of
           (st1, Some e) \<Rightarrow> Some (st1, Some e)
         | (st1, None) \<Rightarrow> gather_loop env fuel (Suc poll) st1))"

text \<open>
  Pushing all tasks to the pool:
  \<^verbatim>\<open>tasks = [(self.pool.submit(Normalize.w_normalize_files, *params), params)
          for params in param_chunk]\<close>.
\<close>

fun submit_all ::
  "('cfg, 'stored) params list \<Rightarrow> ('schema, 'stored, 'pt, 'cfg) mp_state
     \<Rightarrow> ('schema, 'stored, 'pt, 'cfg) mp_state" where
  "submit_all [] st = st"
| "submit_all (params # rest) st =
     (let (pending, st1) = submit params st
      in submit_all rest (st1\<lparr>tasks := tasks st1 @ [(pending, params)]\<rparr>))"

text \<open>
  \<open>map_parallel\<close>, started with the collector, the files removed and the pool
  as they are (\<open>collector0\<close>, \<open>removed0\<close>, \<open>submitted0\<close>).  The result is the final state with
  the exception raised or the pair returned, or \<open>None\<close> when the fuel runs out.
\<close>

definition map_parallel ::
  "('schema, 'stored, 'pt, 'cfg) coord_env \<Rightarrow> nat \<Rightarrow> 'cfg \<Rightarrow> (string \<times> int) list \<Rightarrow> string list
     \<Rightarrow> (nat \<times> ('cfg, 'stored) params) list \<Rightarrow> 'schema \<Rightarrow> string \<Rightarrow> string list
     \<Rightarrow> (('schema, 'stored, 'pt, 'cfg) mp_state
          \<times> (error + ('pt TSchemaUpdate list \<times> TRowCount))) option" where
  "map_parallel env fuel config collector0 removed0 submitted0 schema load_id files =
     (let workers = max_workers env;
          schema_dict0 = to_dict env schema;
          st0 = \<lparr>schema_c = schema, schema_dict = schema_dict0, tasks = [],
                 row_counts_c = Map.empty, schema_updates_c = [],
                 collector_updates = collector0, removed = removed0, submitted = submitted0\<rparr>
      in (case group_worker_files files workers of
            Inl e \<Rightarrow> Some (st0, Inl e)
          | Inr chunk_files \<Rightarrow>
              (let param_chunk = map (\<lambda>files. (config, schema_dict0, load_id, files)) chunk_files;
                   st1 = submit_all param_chunk st0
               in (case gather_loop env fuel 0 st1 of
                     None \<Rightarrow> None
                   | Some (st2, Some e) \<Rightarrow> Some (st2, Inl e)
                   | Some (st2, None) \<Rightarrow>
                       Some (st2, Inr (schema_updates_c st2, row_counts_c st2))))))"

subsection \<open>A concrete conflict between two tasks\<close>

text \<open>
  Collaborators for running the coordinator on two files with two workers.  The schema
  is the list of its columns with their types, and a partial table is one column with
  its type; a column that is there with another type cannot be coerced.  The task for
  the first file infers column \<open>x\<close> as \<open>bigint\<close>.  The task for the second file
  infers it as \<open>text\<close> when its snapshot is empty, and reports no update when the
  snapshot has the column.  Every task is done at the first round of polling, and
  \<open>os.remove\<close> does not fail.
\<close>

definition example_coord_env ::
  "((string \<times> string) list, (string \<times> string) list, string \<times> string, unit) coord_env" where
  "example_coord_env =
     \<lparr>schema_update_table = (\<lambda>schema (column, ty).
         (case map_of schema column of
            None \<Rightarrow> Inr (schema @ [(column, ty)])
          | Some ty1 \<Rightarrow> if ty1 = ty then Inr schema else Inl (CannotCoerceColumnException column))),
      to_dict = (\<lambda>schema. schema),
      max_workers = 2,
      task_done = (\<lambda>poll pending. True),
      task_result = (\<lambda>pending (config, stored, load_id, files).
         if files = [''s.t.1''] then
           Inr ([[(''t'', [(''x'', ''bigint'')])]], 2, [''out.1''], [''t'' \<mapsto> 2])
         else if stored = [] then
           Inr ([[(''t'', [(''x'', ''text'')])]], 1, [''out.2''], [''t'' \<mapsto> 1])
         else
           Inr ([], 1, [''out.2.retry''], [''t'' \<mapsto> 1])),
      os_remove_raises = (\<lambda>rm file. None)\<rparr>"

text \<open>
  The state of \<open>map_parallel\<close> on these two files after the first task has been
  absorbed: the second task, number 1, is still in the task list with its empty
  snapshot.
\<close>

definition example_mp_state ::
  "((string \<times> string) list, (string \<times> string) list, string \<times> string, unit) mp_state" where
  "example_mp_state =
     \<lparr>schema_c = [(''x'', ''bigint'')],
      schema_dict = [],
      tasks = [(1, ((), [], ''1700.1'', [''s.t.2'']))],
      row_counts_c = [''t'' \<mapsto> 2],
      schema_updates_c = [[(''t'', [(''x'', ''bigint'')])]],
      collector_updates = [(''Files'', 1), (''Items'', 2)],
      removed = [],
      submitted = [(0, ((), [], ''1700.1'', [''s.t.1''])), (1, ((), [], ''1700.1'', [''s.t.2'']))]\<rparr>"

subsection \<open>A concrete conflict of a task that wrote through two load storages\<close>




section \<open>The run driver\<close>

text \<open>
  \<open>spool_files\<close> is given its map function as an argument, and the only two
  values the driver passes are the bound methods \<open>self.map_parallel\<close> and
  \<open>self.map_single\<close>; the argument is modelled by the name of the method.
\<close>

datatype map_kind = Map_parallel | Map_single

text \<open>
  The calls the driver makes on its collaborators and on its own map function, with
  their arguments: \<open>'schema\<close> is the schema, \<open>'upd\<close> a schema update and
  \<open>'merged\<close> the result of \<open>merge_schema_updates\<close>.
\<close>

datatype ('schema, 'merged) nevent =
    Load_schema string
  | Map_f map_kind string "string list"
  | Save_schema 'schema
  | Save_temp_schema 'schema string
  | Save_temp_schema_updates string 'merged
  | Raise_if_signalled
  | Commit_temp_load_package string
  | Delete_extracted_files "string list"
  | Create_temp_load_package string
  | List_files_to_normalize_sorted
  | Collector_enter string
  | Collector_update string int "int option"
  | Collector_exit

text \<open>
  The collaborators of the driver.  What a call returns or raises may depend on
  everything that was called before, so each of them is given the calls made so far.
  \<^item> \<open>load_schema\<close>: \<open>schema_storage.load_schema\<close>, which raises
    \<open>SchemaNotFoundError\<close> among others.
  \<^item> \<open>update_normalizers\<close>, \<open>new_schema\<close>: \<open>schema.update_normalizers()\<close>
    and \<open>Schema(schema_name)\<close>.
  \<^item> \<open>pop_x_normalizer\<close>: the loop that pops \<open>x-normalizer\<close> from every table.
  \<^item> \<open>map_f_result\<close>: what the map function of the given name does on the schema
    it is handed: the schema after it, and the exception raised or the schema updates
    and row counts returned.  It is a parameter, so that what is shown of the driver
    holds whatever the two map functions do.
  \<^item> \<open>merge_schema_updates\<close>: the function of that name.
  \<^item> \<open>call_raises\<close>: the exception, if any, with which a call that returns nothing
    fails.
  \<^item> \<open>list_files\<close>, \<open>group_by_schema\<close>: the two methods of the normalize
    storage; \<open>now_timestamp\<close>: \<^verbatim>\<open>str(pendulum.now().timestamp())\<close>.
\<close>

record ('schema, 'upd, 'merged) driver_env =
  load_schema :: "('schema, 'merged) nevent list \<Rightarrow> string \<Rightarrow> error + 'schema"
  update_normalizers :: "'schema \<Rightarrow> 'schema"
  new_schema :: "string \<Rightarrow> 'schema"
  pop_x_normalizer :: "'schema \<Rightarrow> 'schema"
  map_f_result ::
    "map_kind \<Rightarrow> ('schema, 'merged) nevent list \<Rightarrow> 'schema \<Rightarrow> string \<Rightarrow> string list
       \<Rightarrow> 'schema \<times> (error + ('upd list \<times> TRowCount))"
  merge_schema_updates :: "'upd list \<Rightarrow> 'merged"
  call_raises :: "('schema, 'merged) nevent list \<Rightarrow> ('schema, 'merged) nevent \<Rightarrow> error option"
  list_files :: "('schema, 'merged) nevent list \<Rightarrow> string list"
  group_by_schema :: "string list \<Rightarrow> (string \<times> string list) list"
  now_timestamp :: "('schema, 'merged) nevent list \<Rightarrow> string"

text \<open>
  The \<open>Normalize\<close> instance as far as the driver changes it: the attribute
  \<open>_row_counts\<close>, and the calls made so far.
\<close>

record ('schema, 'merged) normalize =
  row_counts_n :: TRowCount
  calls :: "('schema, 'merged) nevent list"

definition call ::
  "('schema, 'upd, 'merged) driver_env \<Rightarrow> ('schema, 'merged) nevent \<Rightarrow> ('schema, 'merged) normalize
     \<Rightarrow> ('schema, 'merged) normalize \<times> error option" where
  "call env ev self = (self\<lparr>calls := calls self @ [ev]\<rparr>, call_raises env (calls self) ev)"

text \<open>
  Running the rest of a function body after a statement, unless the statement raised.
\<close>

definition and_then ::
  "('schema, 'merged) normalize \<times> error option
     \<Rightarrow> (('schema, 'merged) normalize \<Rightarrow> ('schema, 'merged) normalize \<times> error option)
     \<Rightarrow> ('schema, 'merged) normalize \<times> error option" where
  "and_then r f = (case r of (self, Some e) \<Rightarrow> (self, Some e) | (self, None) \<Rightarrow> f self)"

definition load_or_create_schema ::
  "('schema, 'upd, 'merged) driver_env \<Rightarrow> string \<Rightarrow> ('schema, 'merged) normalize
     \<Rightarrow> ('schema, 'merged) normalize \<times> (error + 'schema)" where
  "load_or_create_schema env schema_name self =
     (self\<lparr>calls := calls self @ [Load_schema schema_name]\<rparr>,
      (case load_schema env (calls self) schema_name of
         Inr schema \<Rightarrow> Inr (update_normalizers env schema)
       | Inl SchemaNotFoundError \<Rightarrow> Inr (new_schema env schema_name)
       | Inl e \<Rightarrow> Inl e))"

definition spool_files ::
  "('schema, 'upd, 'merged) driver_env \<Rightarrow> string \<Rightarrow> string \<Rightarrow> map_kind \<Rightarrow> string list
     \<Rightarrow> ('schema, 'merged) normalize \<Rightarrow> ('schema, 'merged) normalize \<times> error option" where
  "spool_files env schema_name load_id map_f files self =
     (case load_or_create_schema env schema_name self of
        (self1, Inl e) \<Rightarrow> (self1, Some e)
      | (self1, Inr schema) \<Rightarrow>
          (let self2 = self1\<lparr>calls := calls self1 @ [Map_f map_f load_id files]\<rparr>
           in (case map_f_result env map_f (calls self1) schema load_id files of
                 (schema1, Inl e) \<Rightarrow> (self2, Some e)
               | (schema1, Inr (schema_updates, row_counts)) \<Rightarrow>
                   (let schema2 = pop_x_normalizer env schema1
                    in and_then (call env (Save_schema schema2) self2) (\<lambda>self3.
                       and_then (call env (Save_temp_schema schema2 load_id) self3) (\<lambda>self4.
                       and_then (call env (Save_temp_schema_updates load_id
                                             (merge_schema_updates env schema_updates)) self4) (\<lambda>self5.
                       and_then (call env Raise_if_signalled self5) (\<lambda>self6.
                       and_then (call env (Commit_temp_load_package load_id) self6) (\<lambda>self7.
                       and_then (call env (Delete_extracted_files files) self7) (\<lambda>self8.
                       (self8\<lparr>row_counts_n := row_counts\<rparr>, None)))))))))))"

definition spool_schema_files ::
  "('schema, 'upd, 'merged) driver_env \<Rightarrow> string \<Rightarrow> string \<Rightarrow> string list
     \<Rightarrow> ('schema, 'merged) normalize \<Rightarrow> ('schema, 'merged) normalize \<times> (error + string)" where
  "spool_schema_files env load_id schema_name files self =
     (case call env (Create_temp_load_package load_id) self of
        (self1, Some e) \<Rightarrow> (self1, Inl e)
      | (self1, None) \<Rightarrow>
          (case spool_files env schema_name load_id Map_parallel files self1 of
             (self2, Some (CannotCoerceColumnException exc)) \<Rightarrow>
               (case call env (Create_temp_load_package load_id) self2 of
                  (self3, Some e) \<Rightarrow> (self3, Inl e)
                | (self3, None) \<Rightarrow>
                    (case spool_files env schema_name load_id Map_single files self3 of
                       (self4, Some e) \<Rightarrow> (self4, Inl e)
                     | (self4, None) \<Rightarrow> (self4, Inr load_id)))
           | (self2, Some e) \<Rightarrow> (self2, Inl e)
           | (self2, None) \<Rightarrow> (self2, Inr load_id)))"

text \<open>
  The loop of \<open>run\<close> over the schema groups.  The collector scope is left when
  \<open>spool_schema_files\<close> returns and when it raises.
\<close>

fun spool_groups ::
  "('schema, 'upd, 'merged) driver_env \<Rightarrow> (string \<times> string list) list
     \<Rightarrow> ('schema, 'merged) normalize \<Rightarrow> ('schema, 'merged) normalize \<times> error option" where
  "spool_groups env [] self = (self, None)"
| "spool_groups env ((schema_name, schema_files) # rest) self =
     (let load_id = now_timestamp env (calls self);
          self1 = self\<lparr>calls := calls self @
                    [Collector_enter (''Normalize '' @ schema_name @ '' in '' @ load_id),
                     Collector_update ''Files'' 0 (Some (int (length schema_files))),
                     Collector_update ''Items'' 0 None]\<rparr>
      in (case spool_schema_files env load_id schema_name schema_files self1 of
            (self2, Inl e) \<Rightarrow> (self2\<lparr>calls := calls self2 @ [Collector_exit]\<rparr>, Some e)
          | (self2, Inr l) \<Rightarrow>
              spool_groups env rest (self2\<lparr>calls := calls self2 @ [Collector_exit]\<rparr>)))"

text \<open>
  \<open>run\<close>.  The pool it records is the one \<open>map_parallel\<close> works on, which is
  part of \<open>map_f_result\<close> here.  \<open>TRunMetrics\<close> is the pair of its two fields.
\<close>

definition run ::
  "('schema, 'upd, 'merged) driver_env \<Rightarrow> ('schema, 'merged) normalize
     \<Rightarrow> ('schema, 'merged) normalize \<times> (error + (bool \<times> int))" where
  "run env self =
     (let self1 = self\<lparr>row_counts_n := Map.empty\<rparr>;
          files = list_files env (calls self1);
          self2 = self1\<lparr>calls := calls self1 @ [List_files_to_normalize_sorted]\<rparr>
      in if length files = 0 then (self2, Inr (True, 0))
         else
           (case spool_groups env (group_by_schema env files) self2 of
              (self3, Some e) \<Rightarrow> (self3, Inl e)
            | (self3, None) \<Rightarrow>
                (self3\<lparr>calls := calls self3 @ [List_files_to_normalize_sorted]\<rparr>,
                 Inr (False, int (length (list_files env (calls self3)))))))"

text \<open>\<open>get_normalize_info\<close>: the row counts of the last run.\<close>

definition get_normalize_info :: "('schema, 'merged) normalize \<Rightarrow> TRowCount" where
  "get_normalize_info self = row_counts_n self"

subsection \<open>A concrete run\<close>

text \<open>
  Collaborators for running the driver on two extracted files of two schemas.  The
  schema is the list of its table names and no schema is stored yet.  The map
  functions report five rows of table \<open>t1\<close> for the first file and three rows of
  table \<open>t2\<close> for the second; with \<open>parallel_conflicts\<close>, \<open>map_parallel\<close>
  raises a column-coercion conflict instead.  With \<open>signalled\<close>, the signal check
  raises.  The files listed are those not yet deleted, each file is a schema group of
  its own, and the clock gives one load id before the first commit and another after.
\<close>

definition example_driver_env :: "bool \<Rightarrow> bool \<Rightarrow> (string list, string, string list) driver_env" where
  "example_driver_env signalled parallel_conflicts =
     \<lparr>load_schema = (\<lambda>h schema_name. Inl SchemaNotFoundError),
      update_normalizers = (\<lambda>schema. schema),
      new_schema = (\<lambda>schema_name. []),
      pop_x_normalizer = (\<lambda>schema. schema),
      map_f_result = (\<lambda>kind h schema load_id files.
         if kind = Map_parallel \<and> parallel_conflicts
         then (schema, Inl (CannotCoerceColumnException ''x''))
         else (schema, Inr ([], if files = [''s1.t1.1.jsonl''] then [''t1'' \<mapsto> 5]
                                else [''t2'' \<mapsto> 3]))),
      merge_schema_updates = (\<lambda>ups. ups),
      call_raises = (\<lambda>h ev. if ev = Raise_if_signalled \<and> signalled
                              then Some SignalReceivedException else None),
      list_files = (\<lambda>h. filter (\<lambda>f. Delete_extracted_files [f] \<notin> set h)
                            [''s1.t1.1.jsonl'', ''s2.t2.1.jsonl'']),
      group_by_schema = (\<lambda>files. map (\<lambda>f. (takeWhile (\<lambda>c. c \<noteq> CHR ''.'') f, [f])) files),
      now_timestamp = (\<lambda>h. if Commit_temp_load_package ''1700.1'' \<in> set h
                            then ''1700.2'' else ''1700.1'')\<rparr>"

definition example_normalize :: "(string list, string list) normalize" where
  "example_normalize = \<lparr>row_counts_n = [''t0'' \<mapsto> 1], calls = []\<rparr>"
section \<open>Properties of the file grouping\<close>

lemma concat_chunks: "0 < n \<Longrightarrow> concat (chunks xs n) = xs"
proof (induction xs n rule: chunks.induct)
  case (1 seq n)
  show ?case
  proof (cases "seq = []")
    case True
    then show ?thesis by (simp add: chunks.simps)
  next
    case False
    with 1 have "concat (chunks (drop n seq) n) = drop n seq" by simp
    with False 1(2) show ?thesis by (subst chunks.simps) simp
  qed
qed

lemma chunks_nonempty: "c \<in> set (chunks xs n) \<Longrightarrow> c \<noteq> []"
proof (induction xs n rule: chunks.induct)
  case (1 seq n)
  from 1(2) have ne: "seq \<noteq> []" "n \<noteq> 0" by (auto simp: chunks.simps split: if_splits)
  with 1(2) have "c = take n seq \<or> c \<in> set (chunks (drop n seq) n)"
    by (subst (asm) chunks.simps) auto
  with 1(1) ne show ?case by auto
qed

lemma drop_chunks: "0 < n \<Longrightarrow> drop k (chunks xs n) = chunks (drop (k * n) xs) n"
proof (induction k arbitrary: xs)
  case 0
  then show ?case by simp
next
  case (Suc k)
  show ?case
  proof (cases "xs = []")
    case True
    then show ?thesis by (simp add: chunks.simps)
  next
    case False
    with Suc.prems have "chunks xs n = take n xs # chunks (drop n xs) n"
      by (subst chunks.simps) simp
    then have "drop (Suc k) (chunks xs n) = drop k (chunks (drop n xs) n)" by simp
    also have "\<dots> = chunks (drop (k * n) (drop n xs)) n" using Suc by simp
    also have "drop (k * n) (drop n xs) = drop (Suc k * n) xs" by (simp add: add.commute)
    finally show ?thesis .
  qed
qed

lemma mset_concat_append_at:
  "j < length cf \<Longrightarrow> mset (concat (cf[j := cf ! j @ [x]])) = mset (concat cf) + {#x#}"
proof -
  assume j: "j < length cf"
  have a: "cf[j := cf ! j @ [x]] = take j cf @ (cf ! j @ [x]) # drop (Suc j) cf"
    using j by (rule upd_conv_take_nth_drop)
  have b: "cf = take j cf @ cf ! j # drop (Suc j) cf"
    using j by (rule id_take_nth_drop)
  have "mset (concat (cf[j := cf ! j @ [x]]))
          = mset (concat (take j cf)) + mset (cf ! j) + {#x#} + mset (concat (drop (Suc j) cf))"
    by (subst a) simp
  moreover have "mset (concat cf)
          = mset (concat (take j cf)) + mset (cf ! j) + mset (concat (drop (Suc j) cf))"
    by (subst b) simp
  ultimately show ?thesis by simp
qed

lemma distribute_ok:
  "1 \<le> l_idx + r \<Longrightarrow> l_idx + r + int idx + int (length xs) \<le> int (length cf) + 1 \<Longrightarrow>
   \<exists>bs. distribute cf l_idx r idx xs = Inr bs \<and> length bs = length cf
        \<and> mset (concat bs) = mset (concat cf) + mset xs
        \<and> (\<forall>j. int (length cf) < int j + l_idx + r + int idx \<longrightarrow> bs ! j = cf ! j)"
proof (induction xs arbitrary: cf idx)
  case Nil
  then show ?case by simp
next
  case (Cons x xs)
  let ?p = "nat (int (length cf) - l_idx - int idx - r)"
  from Cons.prems have ix: "py_index (length cf) (- l_idx - int idx - r) = Some ?p"
    and p: "?p < length cf" "int ?p = int (length cf) - l_idx - int idx - r"
    by (auto simp: py_index_def Let_def)
  let ?cf = "cf[?p := cf ! ?p @ [x]]"
  from Cons.prems have "l_idx + r + int (Suc idx) + int (length xs) \<le> int (length ?cf) + 1"
    by simp
  from Cons.IH [OF Cons.prems(1) this] obtain bs where
    bs: "distribute ?cf l_idx r (Suc idx) xs = Inr bs" "length bs = length ?cf"
        "mset (concat bs) = mset (concat ?cf) + mset xs"
        "\<forall>j. int (length ?cf) < int j + l_idx + r + int (Suc idx) \<longrightarrow> bs ! j = ?cf ! j"
    by blast
  have "distribute cf l_idx r idx (x # xs) = Inr bs" using ix bs(1) by simp
  moreover have "length bs = length cf" using bs(2) by simp
  moreover have "mset (concat bs) = mset (concat cf) + mset (x # xs)"
    using bs(3) mset_concat_append_at [OF p(1)] by simp
  moreover have "\<forall>j. int (length cf) < int j + l_idx + r + int idx \<longrightarrow> bs ! j = cf ! j"
  proof (intro allI impI)
    fix j assume j: "int (length cf) < int j + l_idx + r + int idx"
    then have "bs ! j = ?cf ! j" using bs(4) by simp
    moreover have "j \<noteq> ?p" using j p(2) by linarith
    ultimately show "bs ! j = cf ! j" by simp
  qed
  ultimately show ?case by blast
qed

lemma drop_butlast_last:
  "n < length cf \<Longrightarrow> drop n cf = drop n (butlast cf) @ [last cf]"
proof -
  assume n: "n < length cf"
  then have ne: "cf \<noteq> []" by auto
  have "drop n (butlast cf @ [last cf]) = drop n (butlast cf) @ [last cf]"
    using n by simp
  with ne show ?thesis by simp
qed

lemma redistribute_ok:
  "length cf = n + k \<Longrightarrow> \<forall>c \<in> set (drop n cf). c \<noteq> [] \<Longrightarrow> 0 \<le> l_idx \<Longrightarrow>
   l_idx + int (length (concat (drop n cf))) < int n \<or> k = 0 \<Longrightarrow>
   \<exists>bs. redistribute cf (int k) l_idx idx = Inr bs \<and> length bs = n
        \<and> mset (concat bs) = mset (concat cf)"
proof (induction k arbitrary: cf l_idx idx)
  case 0
  then show ?case by (subst redistribute.simps) simp
next
  case (Suc k)
  let ?popped = "last cf" and ?cf1 = "butlast cf"
  from Suc.prems(1) have nlt: "n < length cf" and ne: "cf \<noteq> []" by auto
  have len1: "length ?cf1 = n + k" using Suc.prems(1) by simp
  have dr: "drop n cf = drop n ?cf1 @ [?popped]" using nlt by (rule drop_butlast_last)
  have pne: "?popped \<noteq> []" using Suc.prems(2) dr by simp
  have T: "length (concat (drop n cf)) = length (concat (drop n ?cf1)) + length ?popped"
    by (subst dr) simp
  from Suc.prems(4) T have bound: "l_idx + int (length (concat (drop n ?cf1))) + int (length ?popped) < int n"
    by simp
  have "1 \<le> l_idx + int (Suc k)" using Suc.prems(3) by simp
  moreover have "l_idx + int (Suc k) + int 0 + int (length (rev ?popped)) \<le> int (length ?cf1) + 1"
    using bound len1 by simp
  ultimately obtain bs2 where
    bs2: "distribute ?cf1 l_idx (int (Suc k)) 0 (rev ?popped) = Inr bs2" "length bs2 = length ?cf1"
         "mset (concat bs2) = mset (concat ?cf1) + mset (rev ?popped)"
         "\<forall>j. int (length ?cf1) < int j + l_idx + int (Suc k) + int 0 \<longrightarrow> bs2 ! j = ?cf1 ! j"
    using distribute_ok [of l_idx "int (Suc k)" 0 "rev ?popped" ?cf1] by blast
  have dr2: "drop n bs2 = drop n ?cf1"
  proof (rule nth_equalityI)
    show "length (drop n bs2) = length (drop n ?cf1)" using bs2(2) by simp
  next
    fix i assume "i < length (drop n bs2)"
    then have i: "n + i < length bs2" by simp
    have "int (length ?cf1) < int (n + i) + l_idx + int (Suc k) + int 0"
      using len1 Suc.prems(3) by simp
    with bs2(4) have "bs2 ! (n + i) = ?cf1 ! (n + i)" by blast
    with i bs2(2) show "drop n bs2 ! i = drop n ?cf1 ! i" by simp
  qed
  have mset2: "mset (concat bs2) = mset (concat cf)"
  proof -
    have "concat cf = concat (?cf1 @ [?popped])" using ne by simp
    then have "mset (concat cf) = mset (concat ?cf1) + mset ?popped" by (simp del: append_butlast_last_id)
    with bs2(3) show ?thesis by simp
  qed
  have "\<forall>c \<in> set (drop n bs2). c \<noteq> []" using Suc.prems(2) dr dr2 by simp
  moreover have "0 \<le> int (length ?popped) - 1 + 1" by simp
  moreover have "int (length ?popped) - 1 + 1 + int (length (concat (drop n bs2))) < int n \<or> k = 0"
    using bound dr2 Suc.prems(3) by simp
  moreover have "length bs2 = n + k" using bs2(2) len1 by simp
  ultimately obtain bs where
    bs: "redistribute bs2 (int k) (int (length ?popped) - 1 + 1) (Some (int (length ?popped) - 1)) = Inr bs"
        "length bs = n" "mset (concat bs) = mset (concat bs2)"
    using Suc.IH [of bs2 "int (length ?popped) - 1 + 1" "Some (int (length ?popped) - 1)"] by blast
  have "redistribute cf (int (Suc k)) l_idx idx = Inr bs"
    using ne pne bs2(1) bs(1) by (subst redistribute.simps) (simp add: Let_def)
  with bs(2,3) mset2 show ?case by simp
qed

lemma length_chunks_le: "0 < c \<Longrightarrow> length (chunks xs c) \<le> length xs"
proof (induction xs c rule: chunks.induct)
  case (1 seq n)
  show ?case
  proof (cases "seq = []")
    case True
    then show ?thesis by (simp add: chunks.simps)
  next
    case False
    with 1 have "length (chunks (drop n seq) n) \<le> length (drop n seq)" by simp
    moreover have "chunks seq n = take n seq # chunks (drop n seq) n"
      using False 1(2) by (subst chunks.simps) simp
    ultimately show ?thesis using False 1(2) by (cases seq) auto
  qed
qed

lemma surplus_length:
  fixes n :: int and L :: nat
  assumes "1 \<le> n" and lt: "n < int L"
  shows "int (L - nat n * nat (max (int L div n) 1)) = int L mod n"
proof -
  have "0 < int L div n" using assms pos_imp_zdiv_pos_iff [of n "int L"] by simp
  then have mx: "max (int L div n) 1 = int L div n" by simp
  have nn: "int (nat n) = n" using assms by simp
  have m: "int (nat n * nat (int L div n)) = n * (int L div n)"
    using \<open>0 < int L div n\<close> nn by simp
  have "int L - n * (int L div n) = int L mod n"
    by (rule minus_mult_div_eq_mod)
  moreover have "0 \<le> int L mod n" using assms by simp
  ultimately have "int (nat n * nat (int L div n)) \<le> int L" using m by linarith
  then have "nat n * nat (int L div n) \<le> L" by (simp only: of_nat_le_iff)
  then have "int (L - nat n * nat (int L div n)) = int L - int (nat n * nat (int L div n))"
    by (rule of_nat_diff)
  also have "\<dots> = int L mod n" by (simp only: m minus_mult_div_eq_mod)
  finally show ?thesis by (simp only: mx)
qed


lemma distribute_frame_below:
  "1 \<le> l_idx + r \<Longrightarrow> distribute cf l_idx r idx xs = Inr bs \<Longrightarrow>
   int j + l_idx + r + int idx + int (length xs) \<le> int (length cf) \<Longrightarrow> bs ! j = cf ! j"
proof (induction xs arbitrary: cf idx)
  case Nil
  then show ?case by simp
next
  case (Cons x xs)
  from Cons.prems(2) obtain p where
    ix: "py_index (length cf) (- l_idx - int idx - r) = Some p"
    and d: "distribute (cf[p := cf ! p @ [x]]) l_idx r (Suc idx) xs = Inr bs"
    by (auto split: option.splits)
  from ix have p: "int p = int (length cf) - l_idx - int idx - r"
    using Cons.prems(1) by (auto simp: py_index_def Let_def split: if_splits)
  have "int j + l_idx + r + int (Suc idx) + int (length xs) \<le> int (length (cf[p := cf ! p @ [x]]))"
    using Cons.prems(3) by simp
  from Cons.IH [OF Cons.prems(1) d this] have "bs ! j = cf[p := cf ! p @ [x]] ! j" .
  moreover have "j \<noteq> p" using p Cons.prems(3) by auto
  ultimately show ?case by simp
qed

lemma distribute_sorted:
  "1 \<le> l_idx + r \<Longrightarrow> distribute cf l_idx r idx xs = Inr bs \<Longrightarrow>
   \<forall>j < length cf. sorted (cf ! j) \<Longrightarrow>
   \<forall>j. int j + l_idx + r + int idx \<le> int (length cf) \<longrightarrow> (\<forall>a \<in> set (cf ! j). \<forall>x \<in> set xs. a \<le> x) \<Longrightarrow>
   j < length cf \<Longrightarrow> sorted (bs ! j)"
proof (induction xs arbitrary: cf idx)
  case Nil
  then show ?case by simp
next
  case (Cons x xs)
  from Cons.prems(2) obtain p where
    ix: "py_index (length cf) (- l_idx - int idx - r) = Some p"
    and d: "distribute (cf[p := cf ! p @ [x]]) l_idx r (Suc idx) xs = Inr bs"
    by (auto split: option.splits)
  from ix have p: "int p = int (length cf) - l_idx - int idx - r" and pl: "p < length cf"
    using Cons.prems(1) by (auto simp: py_index_def Let_def split: if_splits)
  let ?cf = "cf[p := cf ! p @ [x]]"
  have "int p + l_idx + r + int idx \<le> int (length cf)" using p by simp
  with Cons.prems(4) have "\<forall>a \<in> set (cf ! p). \<forall>y \<in> set (x # xs). a \<le> y" by blast
  then have fresh_p: "\<forall>a \<in> set (cf ! p). a \<le> x" by simp
  have s1: "\<forall>j < length ?cf. sorted (?cf ! j)"
  proof (intro allI impI)
    fix i assume i: "i < length ?cf"
    show "sorted (?cf ! i)"
    proof (cases "i = p")
      case True
      then have "?cf ! i = cf ! p @ [x]" using pl by simp
      moreover have "sorted (cf ! p)" using Cons.prems(3) pl by simp
      ultimately show ?thesis using fresh_p by (simp add: sorted_append)
    next
      case False
      then show ?thesis using Cons.prems(3) i by simp
    qed
  qed
  have s2: "\<forall>i. int i + l_idx + r + int (Suc idx) \<le> int (length ?cf)
              \<longrightarrow> (\<forall>a \<in> set (?cf ! i). \<forall>y \<in> set xs. a \<le> y)"
  proof (intro allI impI)
    fix i assume i: "int i + l_idx + r + int (Suc idx) \<le> int (length ?cf)"
    then have "i \<noteq> p" using p by auto
    then have "?cf ! i = cf ! i" by simp
    moreover have "int i + l_idx + r + int idx \<le> int (length cf)" using i by simp
    ultimately show "\<forall>a \<in> set (?cf ! i). \<forall>y \<in> set xs. a \<le> y"
      using Cons.prems(4) by simp
  qed
  have "j < length ?cf" using Cons.prems(5) by simp
  from Cons.IH [OF Cons.prems(1) d s1 s2 this] show ?case .
qed

lemma sorted_concat_nth: "sorted (concat cs) \<Longrightarrow> j < length cs \<Longrightarrow> sorted (cs ! j)"
proof -
  assume s: "sorted (concat cs)" and j: "j < length cs"
  have "cs = take j cs @ cs ! j # drop (Suc j) cs" using j by (rule id_take_nth_drop)
  then have "concat cs = concat (take j cs) @ cs ! j @ concat (drop (Suc j) cs)"
    by (metis concat.simps(2) concat_append)
  with s show ?thesis by (simp add: sorted_append)
qed

lemma sorted_concat_cross:
  "sorted (concat cs) \<Longrightarrow> i < j \<Longrightarrow> j < length cs \<Longrightarrow> a \<in> set (cs ! i) \<Longrightarrow> b \<in> set (cs ! j) \<Longrightarrow> a \<le> b"
proof -
  assume s: "sorted (concat cs)" and ij: "i < j" and j: "j < length cs"
    and a: "a \<in> set (cs ! i)" and b: "b \<in> set (cs ! j)"
  have i: "i < length cs" using ij j by simp
  have "cs = take i cs @ cs ! i # drop (Suc i) cs" using i by (rule id_take_nth_drop)
  then have c: "concat cs = concat (take i cs) @ cs ! i @ concat (drop (Suc i) cs)"
    by (metis concat.simps(2) concat_append)
  have "cs ! j = drop (Suc i) cs ! (j - Suc i)" using ij j by simp
  moreover have "j - Suc i < length (drop (Suc i) cs)" using ij j by simp
  ultimately have "cs ! j \<in> set (drop (Suc i) cs)" by (metis nth_mem)
  with b have "b \<in> set (concat (drop (Suc i) cs))" by auto
  moreover from s c have "\<forall>u \<in> set (cs ! i). \<forall>v \<in> set (concat (drop (Suc i) cs)). u \<le> v"
    by (simp add: sorted_append)
  ultimately show ?thesis using a by blast
qed


lemma redistribute_sorted:
  "length cf = n + k \<Longrightarrow> \<forall>c \<in> set (drop n cf). c \<noteq> [] \<Longrightarrow> 0 \<le> l_idx \<Longrightarrow>
   l_idx + int (length (concat (drop n cf))) < int n \<or> k = 0 \<Longrightarrow>
   \<forall>j < length cf. sorted (cf ! j) \<Longrightarrow>
   \<forall>j. int j + l_idx < int n \<longrightarrow>
       (\<forall>a \<in> set (cf ! j). \<forall>i. n \<le> i \<and> i < length cf \<longrightarrow> (\<forall>x \<in> set (cf ! i). a \<le> x)) \<Longrightarrow>
   k \<le> 1 \<or> (k = 2 \<and> l_idx = 0) \<Longrightarrow>
   redistribute cf (int k) l_idx idx = Inr bs \<Longrightarrow> j < length bs \<Longrightarrow> sorted (bs ! j)"
proof (induction k arbitrary: cf l_idx idx)
  case 0
  from "0.prems"(8) have "bs = cf" by (subst (asm) redistribute.simps) simp
  with "0.prems"(5,9) show ?case by simp
next
  case (Suc k)
  let ?popped = "last cf" and ?cf1 = "butlast cf"
  from Suc.prems(1) have nlt: "n < length cf" and ne: "cf \<noteq> []" by auto
  have len1: "length ?cf1 = n + k" using Suc.prems(1) by simp
  have dr: "drop n cf = drop n ?cf1 @ [?popped]" using nlt by (rule drop_butlast_last)
  have pne: "?popped \<noteq> []" using Suc.prems(2) dr by simp
  have T: "length (concat (drop n cf)) = length (concat (drop n ?cf1)) + length ?popped"
    by (subst dr) simp
  from Suc.prems(4) T have bound: "l_idx + int (length (concat (drop n ?cf1))) + int (length ?popped) < int n"
    by simp
  have base: "1 \<le> l_idx + int (Suc k)" using Suc.prems(3) by simp
  moreover have "l_idx + int (Suc k) + int 0 + int (length (rev ?popped)) \<le> int (length ?cf1) + 1"
    using bound len1 by simp
  ultimately obtain bs2 where
    bs2: "distribute ?cf1 l_idx (int (Suc k)) 0 (rev ?popped) = Inr bs2" "length bs2 = length ?cf1"
         "\<forall>j. int (length ?cf1) < int j + l_idx + int (Suc k) + int 0 \<longrightarrow> bs2 ! j = ?cf1 ! j"
    using distribute_ok [of l_idx "int (Suc k)" 0 "rev ?popped" ?cf1] by blast
  have nth1: "\<And>i. i < length ?cf1 \<Longrightarrow> ?cf1 ! i = cf ! i" by (simp add: nth_butlast)
  have lastnth: "?popped = cf ! (n + k)" using ne Suc.prems(1) by (simp add: last_conv_nth)
  have up: "\<And>i. n \<le> i \<Longrightarrow> i < length bs2 \<Longrightarrow> bs2 ! i = cf ! i"
  proof -
    fix i assume i: "n \<le> i" "i < length bs2"
    have "int (length ?cf1) < int i + l_idx + int (Suc k) + int 0"
      using len1 Suc.prems(3) i by simp
    with bs2(3) have "bs2 ! i = ?cf1 ! i" by blast
    with i bs2(2) nth1 show "bs2 ! i = cf ! i" by simp
  qed
  have dr2: "drop n bs2 = drop n ?cf1"
  proof (rule nth_equalityI)
    show "length (drop n bs2) = length (drop n ?cf1)" using bs2(2) by simp
  next
    fix i assume "i < length (drop n bs2)"
    then have i: "n + i < length bs2" by simp
    then have "bs2 ! (n + i) = ?cf1 ! (n + i)" using up [of "n + i"] nth1 bs2(2) by simp
    with i bs2(2) show "drop n bs2 ! i = drop n ?cf1 ! i" by simp
  qed
  have s1: "\<forall>i < length ?cf1. sorted (?cf1 ! i)" using Suc.prems(5) nth1 by simp
  have s2: "\<forall>i. int i + l_idx + int (Suc k) + int 0 \<le> int (length ?cf1)
              \<longrightarrow> (\<forall>a \<in> set (?cf1 ! i). \<forall>x \<in> set (rev ?popped). a \<le> x)"
  proof (intro allI impI)
    fix i assume i: "int i + l_idx + int (Suc k) + int 0 \<le> int (length ?cf1)"
    then have il: "int i + l_idx < int n" and "i < length ?cf1" using len1 Suc.prems(3) by auto
    then have "?cf1 ! i = cf ! i" using nth1 by simp
    moreover have "\<forall>a \<in> set (cf ! i). \<forall>x \<in> set (cf ! (n + k)). a \<le> x"
    proof -
      have "n \<le> n + k \<and> n + k < length cf" using Suc.prems(1) by simp
      with Suc.prems(6) il show ?thesis by blast
    qed
    ultimately show "\<forall>a \<in> set (?cf1 ! i). \<forall>x \<in> set (rev ?popped). a \<le> x"
      using lastnth by simp
  qed
  have sorted2: "\<forall>i < length bs2. sorted (bs2 ! i)"
    using distribute_sorted [OF base bs2(1) s1 s2] bs2(2) by simp
  have below: "\<And>i. int i + l_idx + int (length ?popped) < int n \<Longrightarrow> bs2 ! i = cf ! i"
  proof -
    fix i assume i: "int i + l_idx + int (length ?popped) < int n"
    then have "int i + l_idx + int (Suc k) + int 0 + int (length (rev ?popped)) \<le> int (length ?cf1)"
      using len1 by simp
    from distribute_frame_below [OF base bs2(1) this] have "bs2 ! i = ?cf1 ! i" .
    moreover have "i < length ?cf1" using i len1 Suc.prems(3) by linarith
    ultimately show "bs2 ! i = cf ! i" using nth1 by simp
  qed
  let ?l = "int (length ?popped) - 1 + 1"
  have a1: "length bs2 = n + k" using bs2(2) len1 by simp
  have a2: "\<forall>c \<in> set (drop n bs2). c \<noteq> []" using Suc.prems(2) dr dr2 by simp
  have a3: "0 \<le> ?l" by simp
  have a4: "?l + int (length (concat (drop n bs2))) < int n \<or> k = 0"
    using bound dr2 Suc.prems(3) by simp
  have a6: "\<forall>i. int i + ?l < int n \<longrightarrow>
       (\<forall>a \<in> set (bs2 ! i). \<forall>m. n \<le> m \<and> m < length bs2 \<longrightarrow> (\<forall>x \<in> set (bs2 ! m). a \<le> x))"
  proof (cases "k = 0")
    case True
    with a1 have "\<And>m. \<not> (n \<le> m \<and> m < length bs2)" by simp
    then show ?thesis by blast
  next
    case False
    with Suc.prems(7) have l0: "l_idx = 0" by simp
    show ?thesis
    proof (intro allI impI ballI)
      fix i a m x
      assume i: "int i + ?l < int n" and a: "a \<in> set (bs2 ! i)"
        and m: "n \<le> m \<and> m < length bs2" and x: "x \<in> set (bs2 ! m)"
      have "bs2 ! i = cf ! i" using below [of i] i l0 by simp
      moreover have "bs2 ! m = cf ! m" using up [of m] m by simp
      moreover have "int i + l_idx < int n" using i l0 by simp
      moreover have "m < length cf" using m a1 Suc.prems(1) by simp
      ultimately show "a \<le> x" using Suc.prems(6) a x m by auto
    qed
  qed
  have a7: "k \<le> 1 \<or> (k = 2 \<and> ?l = 0)" using Suc.prems(7) by auto
  have "redistribute cf (int (Suc k)) l_idx idx
          = redistribute bs2 (int k) ?l (Some (int (length ?popped) - 1))"
    using ne pne bs2(1) by (subst redistribute.simps) (simp add: Let_def)
  with Suc.prems(8) have a8: "redistribute bs2 (int k) ?l (Some (int (length ?popped) - 1)) = Inr bs"
    by simp
  from Suc.IH [OF a1 a2 a3 a4 sorted2 a6 a7 a8 Suc.prems(9)] show ?case .
qed

lemma surplus_facts:
  fixes F :: "'a::linorder list"
  assumes n: "1 \<le> n"
    and cs: "cs = chunks (sort F) (nat (max (int (length (sort F)) div n) 1))"
    and k: "int (length cs) - n = int k" "0 < k"
  shows "length cs = nat n + k"
    and "\<forall>c \<in> set (drop (nat n) cs). c \<noteq> []"
    and "0 + int (length (concat (drop (nat n) cs))) < int (nat n) \<or> k = 0"
proof -
  let ?fs = "sort F"
  let ?c = "nat (max (int (length ?fs) div n) 1)"
  have c: "0 < ?c" by simp
  show len: "length cs = nat n + k" using n k by linarith
  show "\<forall>c \<in> set (drop (nat n) cs). c \<noteq> []"
    unfolding cs using chunks_nonempty by (metis in_set_dropD)
  have "length cs \<le> length ?fs" unfolding cs using c by (rule length_chunks_le)
  with k have nL: "n < int (length ?fs)" by linarith
  have "drop (nat n) cs = chunks (drop (nat n * ?c) ?fs) ?c"
    unfolding cs using c by (rule drop_chunks)
  then have "concat (drop (nat n) cs) = drop (nat n * ?c) ?fs" using c by (simp only: concat_chunks)
  then have "int (length (concat (drop (nat n) cs))) = int (length ?fs - nat n * ?c)"
    by (simp only: length_drop)
  also have "\<dots> = int (length ?fs) mod n" using n nL by (rule surplus_length)
  also have "\<dots> < n" using n by simp
  finally have lt: "int (length (concat (drop (nat n) cs))) < n" .
  have nn: "int (nat n) = n" using n by simp
  show "0 + int (length (concat (drop (nat n) cs))) < int (nat n) \<or> k = 0"
    using lt by (simp only: nn add_0 simp_thms)
qed

lemma group_worker_files_unfold:
  "1 \<le> n \<Longrightarrow> group_worker_files F n =
     redistribute (chunks (sort F) (nat (max (int (length (sort F)) div n) 1)))
       (int (length (chunks (sort F) (nat (max (int (length (sort F)) div n) 1)))) - n) 0 None"
  by (simp add: group_worker_files_def Let_def)

lemma mset_concat_sum: "mset (concat bs) = \<Sum>\<^sub># (image_mset mset (mset bs))"
  by (induction bs) simp_all

text \<open>
  Claim C1.  For every list of files and every worker count \<open>n \<ge> 1\<close>,
  \<open>group_worker_files\<close> returns (no \<open>IndexError\<close>, also when the
  redistribution loop runs) and its batches partition the input: their concatenation,
  in the order returned and in any other order of the batches, is a permutation of the
  input, so no file is dropped and a list without duplicates is split without any.
\<close>

theorem group_worker_files_partition:
  fixes F :: "'a::linorder list"
  assumes "1 \<le> n"
  shows "\<exists>bs. group_worker_files F n = Inr bs \<and> mset (concat bs) = mset F
          \<and> (\<forall>bs'. mset bs' = mset bs \<longrightarrow> mset (concat bs') = mset F)
          \<and> (distinct F \<longrightarrow> distinct (concat bs))"
proof -
  define cs where "cs = chunks (sort F) (nat (max (int (length (sort F)) div n) 1))"
  have cc: "concat cs = sort F" unfolding cs_def by (rule concat_chunks) simp
  have g: "group_worker_files F n = redistribute cs (int (length cs) - n) 0 None"
    unfolding cs_def using assms by (rule group_worker_files_unfold)
  have "\<exists>bs. group_worker_files F n = Inr bs \<and> mset (concat bs) = mset F"
  proof (cases "0 < int (length cs) - n")
    case False
    then have "redistribute cs (int (length cs) - n) 0 None = Inr cs"
      by (subst redistribute.simps) simp
    with g cc show ?thesis by simp
  next
    case True
    define k where "k = nat (int (length cs) - n)"
    have k: "int (length cs) - n = int k" "0 < k" using True by (simp_all add: k_def)
    note f = surplus_facts [OF assms cs_def k]
    have "\<exists>bs. redistribute cs (int k) 0 None = Inr bs \<and> length bs = nat n
        \<and> mset (concat bs) = mset (concat cs)"
      using f by (intro redistribute_ok) simp_all
    then obtain bs where "redistribute cs (int k) 0 None = Inr bs" "mset (concat bs) = mset (concat cs)"
      by blast
    then have "group_worker_files F n = Inr bs" "mset (concat bs) = mset (sort F)"
      by (simp_all only: g k cc)
    then show ?thesis by simp
  qed
  then obtain bs where bs: "group_worker_files F n = Inr bs" "mset (concat bs) = mset F"
    by blast
  have "\<forall>bs'. mset bs' = mset bs \<longrightarrow> mset (concat bs') = mset F"
    using bs(2) by (simp add: mset_concat_sum)
  moreover have "distinct F \<longrightarrow> distinct (concat bs)"
    using bs(2) by (metis mset_eq_imp_distinct_iff)
  ultimately show ?thesis using bs by blast
qed

text \<open>
  Seven files for four workers: chunking by one file gives seven chunks, so the
  redistribution loop runs three times.
\<close>

theorem group_worker_files_partition_witness:
  "\<exists>bs. group_worker_files [''s.t.5'', ''s.t.2'', ''s.t.7'', ''s.t.1'', ''s.t.4'', ''s.t.3'', ''s.t.6''] 4 = Inr bs
     \<and> mset (concat bs) = mset [''s.t.5'', ''s.t.2'', ''s.t.7'', ''s.t.1'', ''s.t.4'', ''s.t.3'', ''s.t.6'']"
proof -
  have "(1::int) \<le> 4" by simp
  from group_worker_files_partition [OF this] show ?thesis by blast
qed

text \<open>
  Claim C9 fails on the code.  Seven sorted files for four workers: the third batch
  comes back as \<open>s.t.3, s.t.6, s.t.5\<close>.  The loop sets \<open>l_idx\<close> to the size
  of the surplus chunk just distributed instead of adding that size to it, so the
  third surplus chunk is appended to the batch that took the second one, the later
  file first, where the comment of the loop has the remainder go to the existing
  groups one after the other from the end.
\<close>

theorem group_worker_files_unsorted_batch:
  "group_worker_files [''s.t.1'', ''s.t.2'', ''s.t.3'', ''s.t.4'', ''s.t.5'', ''s.t.6'', ''s.t.7''] 4
     = Inr [[''s.t.1''], [''s.t.2''], [''s.t.3'', ''s.t.6'', ''s.t.5''], [''s.t.4'', ''s.t.7'']]
   \<and> \<not> sorted [''s.t.3'', ''s.t.6'', ''s.t.5'']"
  by code_simp

text \<open>
  Where the loop does as its comment says: with at most two surplus chunks the offset
  is still right, and every batch returned is sorted ascending.
\<close>

lemma group_worker_files_sorted_batches:
  fixes F :: "'a::linorder list"
  assumes "1 \<le> n"
    and "int (length (chunks (sort F) (nat (max (int (length (sort F)) div n) 1)))) \<le> n + 2"
  shows "\<exists>bs. group_worker_files F n = Inr bs \<and> (\<forall>b \<in> set bs. sorted b)"
proof -
  define cs where "cs = chunks (sort F) (nat (max (int (length (sort F)) div n) 1))"
  have cc: "concat cs = sort F" unfolding cs_def by (rule concat_chunks) simp
  then have sc: "sorted (concat cs)" by simp
  have g: "group_worker_files F n = redistribute cs (int (length cs) - n) 0 None"
    unfolding cs_def using assms(1) by (rule group_worker_files_unfold)
  have each: "\<forall>j < length cs. sorted (cs ! j)" using sc sorted_concat_nth by blast
  show ?thesis
  proof (cases "0 < int (length cs) - n")
    case False
    then have "redistribute cs (int (length cs) - n) 0 None = Inr cs"
      by (subst redistribute.simps) simp
    moreover have "\<forall>b \<in> set cs. sorted b" using each by (metis in_set_conv_nth)
    ultimately show ?thesis using g by simp
  next
    case True
    define k where "k = nat (int (length cs) - n)"
    have k: "int (length cs) - n = int k" "0 < k" using True by (simp_all add: k_def)
    have k2: "k \<le> 1 \<or> (k = 2 \<and> (0::int) = 0)" using assms(2) k(1) unfolding cs_def [symmetric] by auto
    note f = surplus_facts [OF assms(1) cs_def k]
    have z: "(0::int) \<le> 0" by simp
    from redistribute_ok [OF f(1) f(2) z f(3)] obtain bs where
      bs: "redistribute cs (int k) 0 None = Inr bs" by blast
    have fresh: "\<forall>j. int j + 0 < int (nat n) \<longrightarrow>
       (\<forall>a \<in> set (cs ! j). \<forall>i. nat n \<le> i \<and> i < length cs \<longrightarrow> (\<forall>x \<in> set (cs ! i). a \<le> x))"
    proof (intro allI impI ballI)
      fix j a i x
      assume "int j + 0 < int (nat n)" "a \<in> set (cs ! j)" "nat n \<le> i \<and> i < length cs" "x \<in> set (cs ! i)"
      moreover from this have "j < i" by linarith
      ultimately show "a \<le> x" using sorted_concat_cross [OF sc, of j i a x] by simp
    qed
    have "\<forall>j < length bs. sorted (bs ! j)"
      using redistribute_sorted [OF f(1) f(2) z f(3) each fresh k2 bs] by blast
    then have "\<forall>b \<in> set bs. sorted b" by (metis in_set_conv_nth)
    moreover have "group_worker_files F n = Inr bs" using bs by (simp only: g k)
    ultimately show ?thesis by blast
  qed
qed

text \<open>
  Five files for three workers: five chunks, two of them surplus.
\<close>

lemma group_worker_files_sorted_batches_example:
  "\<exists>bs. group_worker_files [''s.t.5'', ''s.t.2'', ''s.t.1'', ''s.t.4'', ''s.t.3''] 3 = Inr bs
     \<and> (\<forall>b \<in> set bs. sorted b)"
proof -
  have "int (length (chunks (sort [''s.t.5'', ''s.t.2'', ''s.t.1'', ''s.t.4'', ''s.t.3''])
          (nat (max (int (length (sort [''s.t.5'', ''s.t.2'', ''s.t.1'', ''s.t.4'', ''s.t.3''])) div 3) 1)))) \<le> 3 + 2"
    by code_simp
  moreover have "(1::int) \<le> 3" by simp
  ultimately show ?thesis by (intro group_worker_files_sorted_batches)
qed

section \<open>Properties of the worker task\<close>

lemma get_load_storage_cases:
  assumes "get_load_storage env caps (Some file_format) st = (st', r)"
  shows "(r = Inr (write_format_rule caps (heap st) file_format)
          \<and> trace st' = trace st @
               (if map_of (load_storages st) (write_format_rule caps (heap st) file_format) = None
                then [Storage_created (write_format_rule caps (heap st) file_format)] else [])
          \<and> (\<exists>s. map_of (load_storages st') (write_format_rule caps (heap st) file_format) = Some s
                 \<and> (write_format_rule caps (heap st) file_format, s) \<in> set (load_storages st')))
       \<or> (\<exists>e. r = Inl e
             \<and> map_of (load_storages st) (write_format_rule caps (heap st) file_format) = None
             \<and> load_storage_init env False (write_format_rule caps (heap st) file_format)
                  (cells (heap st') (fst (supported_or_empty caps (heap st)))) = Some e
             \<and> trace st' = trace st \<and> load_storages st' = load_storages st)"
  using assms
  by (auto simp: get_load_storage_def write_format_rule_def parquet_supported_def Let_def
        supported_or_empty_def new_list_def py_or_def map_of_SomeD map_add_def
      split: option.splits if_splits prod.splits)

lemma get_load_storage_fields:
  "get_load_storage env caps ff st = (st', r) \<Longrightarrow>
   item_normalizers st' = item_normalizers st \<and> load_storage st' = load_storage st
   \<and> schema_w st' = schema_w st \<and> root_tables st' = root_tables st"
  by (auto simp: get_load_storage_def Let_def split: option.splits if_splits prod.splits)

lemma storages_wf_get_load_storage:
  "storages_wf caps st \<Longrightarrow> get_load_storage env caps ff st = (st', r) \<Longrightarrow> storages_wf caps st'"
  by (auto simp: storages_wf_def get_load_storage_def supported_or_empty_def new_list_def
        list_append_def Let_def
      split: option.splits if_splits prod.splits)

lemma get_load_storage_rule_stable:
  "storages_wf caps st \<Longrightarrow> get_load_storage env caps ff st = (st', r) \<Longrightarrow>
   write_format_rule caps (heap st') f = write_format_rule caps (heap st) f"
  by (auto simp: storages_wf_def get_load_storage_def supported_or_empty_def new_list_def
        list_append_def Let_def write_format_rule_def parquet_supported_def
      split: option.splits if_splits prod.splits)

lemma get_load_storage_arrow_appended:
  "get_load_storage env caps (Some Parquet) st = (st', r) \<Longrightarrow> parquet_supported caps (heap st) \<Longrightarrow>
   \<exists>a. supported_loader_file_formats caps = Some a \<and> cells (heap st') a = cells (heap st) a @ [Arrow]"
  by (auto simp: get_load_storage_def parquet_supported_def Let_def
        supported_or_empty_def new_list_def list_append_def
      split: option.splits if_splits prod.splits)


text \<open>
  \<open>storages_wf\<close> and \<open>normalizers_wf\<close> hold when the worker starts, with no
  load storage and no normalizer yet, and every file of the loop keeps them.
\<close>

lemma storages_wf_empty:
  "(\<forall>a. supported_loader_file_formats caps = Some a \<longrightarrow> a < next_addr (heap st)) \<Longrightarrow>
   load_storages st = [] \<Longrightarrow> storages_wf caps st"
  by (simp add: storages_wf_def)

lemma normalizers_wf_empty: "item_normalizers st = [] \<Longrightarrow> normalizers_wf caps st"
  by (simp add: normalizers_wf_def)

lemma storages_wf_cong:
  "heap st' = heap st \<Longrightarrow> load_storages st' = load_storages st \<Longrightarrow>
   storages_wf caps st' = storages_wf caps st"
  by (simp add: storages_wf_def)

lemma normalizers_wf_cong:
  "heap st' = heap st \<Longrightarrow> item_normalizers st' = item_normalizers st \<Longrightarrow>
   normalizers_wf caps st' = normalizers_wf caps st"
  by (simp add: normalizers_wf_def)

lemma normalizers_wf_get_load_storage:
  assumes "storages_wf caps st" and "normalizers_wf caps st"
    and "get_load_storage env caps ff st = (st', r)"
  shows "normalizers_wf caps st'"
proof -
  have "item_normalizers st' = item_normalizers st"
    using get_load_storage_fields [OF assms(3)] by simp
  moreover have "\<And>f. write_format_rule caps (heap st') f = write_format_rule caps (heap st) f"
    using assms(1,3) by (rule get_load_storage_rule_stable)
  ultimately show ?thesis using assms(2) by (simp add: normalizers_wf_def)
qed

text \<open>
  What \<open>_get_items_normalizer\<close> does for an input format: either the storage that
  the rule names is there or is constructed, and the normalizer returned has the class
  of the format and is built on that storage; or the constructor of that storage
  raises.
\<close>

lemma get_items_normalizer_cases:
  assumes wf: "storages_wf caps st" and nwf: "normalizers_wf caps st"
    and g: "get_items_normalizer env caps file_format st = (st', r)"
  shows "storages_wf caps st' \<and> normalizers_wf caps st'
       \<and> load_storage st' = load_storage st \<and> schema_w st' = schema_w st
       \<and> root_tables st' = root_tables st
       \<and> (file_format = Parquet \<and> parquet_supported caps (heap st) \<longrightarrow>
            (\<exists>a. supported_loader_file_formats caps = Some a
                 \<and> cells (heap st') a = cells (heap st) a @ [Arrow]))
       \<and> ((r = Inr (((if file_format = Parquet then ParquetItemsNormalizer else JsonLItemsNormalizer),
                      write_format_rule caps (heap st) file_format),
                     write_format_rule caps (heap st) file_format)
            \<and> trace st' = trace st @
               (if map_of (load_storages st) (write_format_rule caps (heap st) file_format) = None
                then [Storage_created (write_format_rule caps (heap st) file_format)] else [])
            \<and> (\<exists>s. map_of (load_storages st') (write_format_rule caps (heap st) file_format) = Some s
                 \<and> (write_format_rule caps (heap st) file_format, s) \<in> set (load_storages st')))
          \<or> (\<exists>e. r = Inl e
               \<and> map_of (load_storages st) (write_format_rule caps (heap st) file_format) = None
               \<and> load_storage_init env False (write_format_rule caps (heap st) file_format)
                    (cells (heap st') (fst (supported_or_empty caps (heap st)))) = Some e
               \<and> trace st' = trace st))"
proof -
  let ?key = "write_format_rule caps (heap st) file_format"
  let ?klass = "if file_format = Parquet then ParquetItemsNormalizer else JsonLItemsNormalizer"
  obtain st1 r1 where g1: "get_load_storage env caps (Some file_format) st = (st1, r1)"
    by (cases "get_load_storage env caps (Some file_format) st")
  have wf1: "storages_wf caps st1" using wf g1 by (rule storages_wf_get_load_storage)
  have nwf1: "normalizers_wf caps st1" using wf nwf g1 by (rule normalizers_wf_get_load_storage)
  have stable: "\<And>f. write_format_rule caps (heap st1) f = write_format_rule caps (heap st) f"
    using wf g1 by (rule get_load_storage_rule_stable)
  note f1 = get_load_storage_fields [OF g1]
  have arrow1: "file_format = Parquet \<and> parquet_supported caps (heap st) \<longrightarrow>
            (\<exists>a. supported_loader_file_formats caps = Some a
                 \<and> cells (heap st1) a = cells (heap st) a @ [Arrow])"
    using g1 get_load_storage_arrow_appended by blast
  have same: "heap st' = heap st1 \<and> load_storages st' = load_storages st1 \<and> trace st' = trace st1
      \<and> load_storage st' = load_storage st1 \<and> schema_w st' = schema_w st1
      \<and> root_tables st' = root_tables st1"
    using g g1 by (auto simp: get_items_normalizer_def Let_def split: sum.splits option.splits)
  have wf': "storages_wf caps st'" using wf1 same storages_wf_cong by blast
  have nwf': "normalizers_wf caps st'"
  proof (cases r1)
    case (Inl e)
    with g g1 have "st' = st1" by (simp add: get_items_normalizer_def)
    with nwf1 show ?thesis by simp
  next
    case (Inr k)
    show ?thesis
    proof (cases "map_of (item_normalizers st1) file_format")
      case (Some norm)
      with g g1 Inr have "st' = st1" by (simp add: get_items_normalizer_def)
      with nwf1 show ?thesis by simp
    next
      case None
      from get_load_storage_cases [OF g1] Inr have k: "k = ?key" by auto
      from g g1 Inr None have
        "item_normalizers st' = item_normalizers st1 @ [(file_format, (?klass, k))]"
        by (auto simp: get_items_normalizer_def Let_def)
      with nwf1 same k stable show ?thesis by (auto simp: normalizers_wf_def)
    qed
  qed
  have main: "(r = Inr ((?klass, ?key), ?key)
            \<and> trace st' = trace st @
               (if map_of (load_storages st) ?key = None then [Storage_created ?key] else [])
            \<and> (\<exists>s. map_of (load_storages st') ?key = Some s \<and> (?key, s) \<in> set (load_storages st')))
          \<or> (\<exists>e. r = Inl e
               \<and> map_of (load_storages st) ?key = None
               \<and> load_storage_init env False ?key
                    (cells (heap st') (fst (supported_or_empty caps (heap st)))) = Some e
               \<and> trace st' = trace st)"
  proof (cases r1)
    case (Inl e)
    with g g1 have r: "r = Inl e" by (simp add: get_items_normalizer_def)
    from get_load_storage_cases [OF g1] Inl have
      "map_of (load_storages st) ?key = None"
      "load_storage_init env False ?key
         (cells (heap st1) (fst (supported_or_empty caps (heap st)))) = Some e"
      "trace st1 = trace st"
      by auto
    with r same show ?thesis by auto
  next
    case (Inr k)
    from get_load_storage_cases [OF g1] Inr have k: "k = ?key"
      and t: "trace st1 = trace st @
               (if map_of (load_storages st) ?key = None then [Storage_created ?key] else [])"
      and s: "\<exists>s. map_of (load_storages st1) ?key = Some s \<and> (?key, s) \<in> set (load_storages st1)"
      by auto
    have "r = Inr ((?klass, ?key), ?key)"
    proof (cases "map_of (item_normalizers st1) file_format")
      case None
      with g g1 Inr k show ?thesis by (auto simp: get_items_normalizer_def Let_def)
    next
      case (Some norm)
      then have "(file_format, norm) \<in> set (item_normalizers st1)" by (rule map_of_SomeD)
      with nwf1 stable have "norm = (?klass, ?key)" by (auto simp: normalizers_wf_def)
      with g g1 Inr k Some show ?thesis by (simp add: get_items_normalizer_def)
    qed
    with t s same show ?thesis by simp
  qed
  from wf' nwf' same f1 arrow1 main show ?thesis by simp
qed


lemma process_file_cases:
  assumes wf: "storages_wf caps st" and nwf: "normalizers_wf caps st"
    and p: "parse_normalize_file_name env f = Inr (table_name, file_format)"
    and pf: "process_file env caps f st = (st', r)"
  shows "storages_wf caps st' \<and> normalizers_wf caps st'
       \<and> ((trace st' = trace st @
               (if map_of (load_storages st) (write_format_rule caps (heap st) file_format) = None
                then [Storage_created (write_format_rule caps (heap st) file_format)] else []) @
               [Normalizer_called
                  (if file_format = Parquet then ParquetItemsNormalizer else JsonLItemsNormalizer)
                  (write_format_rule caps (heap st) file_format) f
                  (normalize_table_identifier env (schema_w st) table_name)]
            \<and> load_storage st' = write_format_rule caps (heap st) file_format
            \<and> (\<exists>s. map_of (load_storages st') (write_format_rule caps (heap st) file_format) = Some s
                   \<and> preferred_file_format s = write_format_rule caps (heap st) file_format)
            \<and> (file_format = Parquet \<and> parquet_supported caps (heap st) \<longrightarrow>
                 (\<forall>(k, s) \<in> set (load_storages st').
                     Arrow \<in> set (cells (heap st') (supported_file_formats s)))))
          \<or> (\<exists>e. r = Some e
               \<and> map_of (load_storages st) (write_format_rule caps (heap st) file_format) = None
               \<and> load_storage_init env False (write_format_rule caps (heap st) file_format)
                    (cells (heap st') (fst (supported_or_empty caps (heap st)))) = Some e
               \<and> trace st' = trace st))"
proof -
  let ?key = "write_format_rule caps (heap st) file_format"
  let ?klass = "if file_format = Parquet then ParquetItemsNormalizer else JsonLItemsNormalizer"
  let ?root = "normalize_table_identifier env (schema_w st) table_name"
  let ?st1 = "st\<lparr>root_tables := set_add (root_tables st) ?root\<rparr>"
  have wf1: "storages_wf caps ?st1" using wf by (simp add: storages_wf_def)
  have nwf1: "normalizers_wf caps ?st1" using nwf by (simp add: normalizers_wf_def)
  obtain st2 r2 where g: "get_items_normalizer env caps file_format ?st1 = (st2, r2)"
    by (cases "get_items_normalizer env caps file_format ?st1")
  note c = get_items_normalizer_cases [OF wf1 nwf1 g]
  have same: "heap st' = heap st2 \<and> load_storages st' = load_storages st2
                \<and> item_normalizers st' = item_normalizers st2"
    using pf p g
    by (auto simp: process_file_def Let_def split: prod.splits sum.splits if_splits)
  from c same have wf': "storages_wf caps st'" and nwf': "normalizers_wf caps st'"
    using storages_wf_cong normalizers_wf_cong by blast+
  have main: "(trace st' = trace st @
               (if map_of (load_storages st) ?key = None then [Storage_created ?key] else []) @
               [Normalizer_called ?klass ?key f ?root]
            \<and> load_storage st' = ?key
            \<and> (\<exists>s. map_of (load_storages st') ?key = Some s \<and> preferred_file_format s = ?key)
            \<and> (file_format = Parquet \<and> parquet_supported caps (heap st) \<longrightarrow>
                 (\<forall>(k, s) \<in> set (load_storages st').
                     Arrow \<in> set (cells (heap st') (supported_file_formats s)))))
          \<or> (\<exists>e. r = Some e
               \<and> map_of (load_storages st) ?key = None
               \<and> load_storage_init env False ?key
                    (cells (heap st') (fst (supported_or_empty caps (heap st)))) = Some e
               \<and> trace st' = trace st)"
  proof (cases r2)
    case (Inl e)
    with pf p g have "st' = st2" "r = Some e" by (simp_all add: process_file_def Let_def)
    with c Inl show ?thesis by auto
  next
    case (Inr x)
    with c have x: "r2 = Inr ((?klass, ?key), ?key)"
      and t: "trace st2 = trace st @
               (if map_of (load_storages st) ?key = None then [Storage_created ?key] else [])"
      and s: "\<exists>s. map_of (load_storages st2) ?key = Some s \<and> (?key, s) \<in> set (load_storages st2)"
      by auto
    from pf p g x have t': "trace st' = trace st2 @ [Normalizer_called ?klass ?key f ?root]"
      and l': "load_storage st' = ?key"
      by (auto simp: process_file_def Let_def split: prod.splits sum.splits if_splits)
    from s wf' same have s': "\<exists>s. map_of (load_storages st') ?key = Some s
                                \<and> preferred_file_format s = ?key"
      by (auto simp: storages_wf_def)
    have a': "\<forall>(k, s) \<in> set (load_storages st').
                     Arrow \<in> set (cells (heap st') (supported_file_formats s))"
      if "file_format = Parquet \<and> parquet_supported caps (heap st)"
    proof -
      from that c obtain a where
        a: "supported_loader_file_formats caps = Some a" "cells (heap st2) a = cells (heap st) a @ [Arrow]"
        by auto
      then have "cells (heap st') a \<noteq> []" using same by simp
      with a(1) wf' have "\<forall>(k, s) \<in> set (load_storages st'). supported_file_formats s = a"
        by (auto simp: storages_wf_def)
      with a(2) same show ?thesis by auto
    qed
    from t t' l' s' a' show ?thesis by simp
  qed
  from wf' nwf' main show ?thesis by simp
qed

lemma process_file_wf:
  assumes "storages_wf caps st" and "normalizers_wf caps st"
    and "process_file env caps f st = (st', r)"
  shows "storages_wf caps st' \<and> normalizers_wf caps st'"
proof (cases "parse_normalize_file_name env f")
  case (Inl e)
  with assms show ?thesis by (simp add: process_file_def)
next
  case (Inr p)
  obtain table_name file_format where "p = (table_name, file_format)" by (cases p)
  with Inr assms show ?thesis using process_file_cases by blast
qed

lemma process_files_wf:
  "storages_wf caps st \<Longrightarrow> normalizers_wf caps st \<Longrightarrow> process_files env caps fs st = (st', r) \<Longrightarrow>
   storages_wf caps st' \<and> normalizers_wf caps st'"
proof (induction fs arbitrary: st)
  case Nil
  then show ?case by simp
next
  case (Cons f fs)
  obtain st1 r1 where p: "process_file env caps f st = (st1, r1)"
    by (cases "process_file env caps f st")
  from process_file_wf [OF Cons.prems(1,2) p]
  have wf1: "storages_wf caps st1" and nwf1: "normalizers_wf caps st1" by simp_all
  show ?case
  proof (cases r1)
    case None
    with Cons.prems(3) p have "process_files env caps fs st1 = (st', r)" by simp
    from Cons.IH [OF wf1 nwf1 this] show ?thesis .
  next
    case (Some e)
    with Cons.prems(3) p wf1 nwf1 show ?thesis by simp
  qed
qed





text \<open>
  What the loop over the tables without items does when no storage call fails: one
  empty file for every table of the list that the schema of the worker has, none for
  the others, and all of them through the storage that \<open>load_storage\<close> is bound
  to when the loop starts.
\<close>

lemma write_empty_jobs_trace:
  "\<forall>h c. storage_raises env h c = None \<Longrightarrow> write_empty_jobs env load_id ts st = (st', r) \<Longrightarrow>
   r = None \<and>
   trace st' = trace st @
     map (\<lambda>t. Write_empty_file (load_storage st) load_id t) (filter (has_table env (schema_w st)) ts)"
proof (induction ts arbitrary: st)
  case Nil
  then show ?case by simp
next
  case (Cons t ts)
  show ?case
  proof (cases "has_table env (schema_w st) t")
    case False
    with Cons.prems have "write_empty_jobs env load_id ts st = (st', r)" by simp
    from Cons.IH [OF Cons.prems(1) this] False show ?thesis by simp
  next
    case True
    let ?st1 = "st\<lparr>trace := trace st @ [Write_empty_file (load_storage st) load_id t]\<rparr>"
    from Cons.prems True have "write_empty_jobs env load_id ts ?st1 = (st', r)"
      by (simp add: Let_def)
    from Cons.IH [OF Cons.prems(1) this] True show ?thesis by simp
  qed
qed


text \<open>
  Claim C6 fails on the code.  A line-delimited file for table \<open>t1\<close>, which is in
  the schema and yields no rows, is followed by a columnar file for table \<open>t2\<close>.
  The default load storage is the one created first, for \<open>jsonl\<close>; the empty file
  for \<open>t1\<close> is written through the \<open>arrow\<close> storage, the one that the last file
  processed selected.
\<close>

theorem empty_file_through_last_storage:
  "trace (fst (w_normalize_files (example_env 0) example_caps example_store [''t1''] ''1700.1''
                 [''s.t1.1.jsonl'', ''s.t2.2.parquet'']))
   = [Storage_created (Some Jsonl),
      Normalizer_called JsonLItemsNormalizer (Some Jsonl) ''s.t1.1.jsonl'' ''t1'',
      Storage_created (Some Arrow),
      Normalizer_called ParquetItemsNormalizer (Some Arrow) ''s.t2.2.parquet'' ''t2'',
      Write_empty_file (Some Arrow) ''1700.1'' ''t1'',
      Close_writers (Some Arrow) ''1700.1'']"
  by code_simp

text \<open>
  Claim C7 fails on the code.  The same two files, the first now with five rows: the
  task instantiates two load storages and writes through both, and
  \<open>close_writers\<close> is called on the \<open>arrow\<close> storage only; the \<open>jsonl\<close>
  storage that took the rows of \<open>t1\<close> is never closed.
\<close>

theorem close_writers_on_last_storage_only:
  "trace (fst (w_normalize_files (example_env 5) example_caps example_store [''t1''] ''1700.1''
                 [''s.t1.1.jsonl'', ''s.t2.2.parquet'']))
   = [Storage_created (Some Jsonl),
      Normalizer_called JsonLItemsNormalizer (Some Jsonl) ''s.t1.1.jsonl'' ''t1'',
      Storage_created (Some Arrow),
      Normalizer_called ParquetItemsNormalizer (Some Arrow) ''s.t2.2.parquet'' ''t2'',
      Close_writers (Some Arrow) ''1700.1'']"
  by code_simp

text \<open>
  Claim C8 fails on the code.  The list of supported formats of the destination is
  \<open>jsonl, parquet\<close> before the worker runs on one columnar file and
  \<open>jsonl, parquet, arrow\<close> after: \<open>supported_formats\<close> is the list of the
  capabilities itself, and \<open>arrow\<close> is appended to it.
\<close>

theorem capabilities_list_appended:
  "cells example_store 0 = [Jsonl, Parquet]
   \<and> supported_loader_file_formats example_caps = Some 0
   \<and> cells (heap (fst (w_normalize_files (example_env 0) example_caps example_store [''t1''] ''1700.1''
                        [''s.t2.2.parquet''])))
        0 = [Jsonl, Parquet, Arrow]"
  by code_simp

section \<open>Properties of the coordinator\<close>

lemma remove_files_ok:
  "remove_files env files rm = (rm1, None) \<Longrightarrow> rm1 = rm @ files"
proof (induction files arbitrary: rm)
  case Nil
  then show ?case by simp
next
  case (Cons f rest)
  from Cons.prems have "remove_files env rest (rm @ [f]) = (rm1, None)"
    by (simp split: option.splits)
  from Cons.IH [OF this] show ?case by simp
qed

text \<open>
  What the coordinator does with the tuple a task returned.  When the task is done,
  its result is fetched, and merging its schema updates into the authoritative schema
  raises a column-coercion conflict, the coordinator removes the files of
  \<open>result[2]\<close> (no \<open>os.remove\<close> failing), takes a new snapshot of the schema
  as it is after the failed merge, with the partial tables merged before the conflict,
  submits the task again with that snapshot as the fourth component of its parameters
  and the other components as they were, appends the new task and removes the failing
  one from the task list; the accumulated schema updates, the collector and the row
  counts are as before.
\<close>

lemma conflict_retry:
  assumes "task = (pending, (config, old_dict, load_id, files))"
    and "task \<in> set (tasks st)"
    and "distinct (map fst (tasks st))"
    and "pending < length (submitted st)"
    and "task_done env poll pending"
    and "task_result env pending (config, old_dict, load_id, files) = Inr (updates, items, closed, counts)"
    and "update_table env (schema_c st) updates = (schema1, Some (CannotCoerceColumnException exc))"
    and "remove_files env closed (removed st) = (rm1, None)"
  shows "\<exists>st'. gather_task env poll task st = (st', None)
           \<and> removed st' = removed st @ closed
           \<and> schema_c st' = schema1
           \<and> schema_dict st' = to_dict env schema1
           \<and> submitted st' = submitted st @
                [(length (submitted st), (config, to_dict env schema1, load_id, files))]
           \<and> tasks st' = remove1 task (tasks st) @
                [(length (submitted st), (config, to_dict env schema1, load_id, files))]
           \<and> task \<notin> set (tasks st')
           \<and> schema_updates_c st' = schema_updates_c st
           \<and> collector_updates st' = collector_updates st
           \<and> row_counts_c st' = row_counts_c st"
proof -
  let ?new = "(length (submitted st), (config, to_dict env schema1, load_id, files))"
  define st' where "st' = st\<lparr>schema_c := schema1, removed := rm1, schema_dict := to_dict env schema1,
      submitted := submitted st @ [?new], tasks := remove1 task (tasks st @ [?new])\<rparr>"
  have rm1: "rm1 = removed st @ closed" using assms(8) by (rule remove_files_ok)
  have g: "gather_task env poll task st = (st', None)"
    using assms(1,2,5,6,7,8)
    by (simp add: gather_task_def tasks_remove_def submit_def st'_def Let_def)
  have t: "tasks st' = remove1 task (tasks st) @ [?new]"
    using assms(2) by (simp add: st'_def remove1_append)
  have d: "distinct (tasks st)" using assms(3) by (rule distinct_map [THEN iffD1, THEN conjunct1])
  have "task \<noteq> ?new" using assms(1,4) by simp
  moreover have "task \<notin> set (remove1 task (tasks st))" using d by simp
  ultimately have n: "task \<notin> set (tasks st')" using t by simp
  show ?thesis using g t n rm1 by (simp add: st'_def)
qed

lemma conflict_retry_example:
  "\<exists>st'. gather_task example_coord_env 0 (1, ((), [], ''1700.1'', [''s.t.2''])) example_mp_state = (st', None)
     \<and> removed st' = [''out.2'']
     \<and> schema_dict st' = [(''x'', ''bigint'')]
     \<and> tasks st' = [(2, ((), [(''x'', ''bigint'')], ''1700.1'', [''s.t.2'']))]
     \<and> schema_updates_c st' = [[(''t'', [(''x'', ''bigint'')])]]
     \<and> collector_updates st' = [(''Files'', 1), (''Items'', 2)]"
proof -
  have a2: "(1, ((), [], ''1700.1'', [''s.t.2''])) \<in> set (tasks example_mp_state)"
    by (simp add: example_mp_state_def)
  have a3: "distinct (map fst (tasks example_mp_state))" by (simp add: example_mp_state_def)
  have a4: "(1::nat) < length (submitted example_mp_state)" by (simp add: example_mp_state_def)
  have a5: "task_done example_coord_env 0 1" by (simp add: example_coord_env_def)
  have a6: "task_result example_coord_env 1 ((), [], ''1700.1'', [''s.t.2''])
              = Inr ([[(''t'', [(''x'', ''text'')])]], 1, [''out.2''], [''t'' \<mapsto> 1])"
    by (simp add: example_coord_env_def)
  have a7: "update_table example_coord_env (schema_c example_mp_state) [[(''t'', [(''x'', ''text'')])]]
              = ([(''x'', ''bigint'')], Some (CannotCoerceColumnException ''x''))"
    by (simp add: example_coord_env_def example_mp_state_def)
  have a8: "remove_files example_coord_env [''out.2''] (removed example_mp_state) = ([''out.2''], None)"
    by (simp add: example_coord_env_def example_mp_state_def)
  from conflict_retry [OF refl a2 a3 a4 a5 a6 a7 a8] obtain st' where
    "gather_task example_coord_env 0 (1, ((), [], ''1700.1'', [''s.t.2''])) example_mp_state = (st', None)"
    "removed st' = removed example_mp_state @ [''out.2'']"
    "schema_dict st' = to_dict example_coord_env [(''x'', ''bigint'')]"
    "tasks st' = remove1 (1, ((), [], ''1700.1'', [''s.t.2''])) (tasks example_mp_state) @
       [(length (submitted example_mp_state), ((), to_dict example_coord_env [(''x'', ''bigint'')], ''1700.1'', [''s.t.2'']))]"
    "schema_updates_c st' = schema_updates_c example_mp_state"
    "collector_updates st' = collector_updates example_mp_state"
    by blast
  then show ?thesis by (simp add: example_coord_env_def example_mp_state_def)
qed

text \<open>
  The whole of \<open>map_parallel\<close> on the two files of the example, with two workers:
  the first task is absorbed, the second conflicts, its file is removed and it is
  submitted again as task number 2, which is absorbed at the next round of polling.
\<close>

lemma map_parallel_conflict_example:
  "(case map_parallel example_coord_env 2 () [] [] [] [] ''1700.1'' [''s.t.2'', ''s.t.1''] of
      Some (st, Inr (ups, rc)) \<Rightarrow>
        (schema_c st, tasks st, ups, removed st, map fst (submitted st), rc ''t'')
          = ([(''x'', ''bigint'')], [], [[(''t'', [(''x'', ''bigint'')])]], [''out.2''],
             [0, 1, 2], Some 3)
    | _ \<Rightarrow> False)"
  by code_simp


section \<open>Properties of the run driver\<close>

text \<open>
  Claim C2.  The calls \<open>spool_files\<close> adds are such that: the signal check is
  made only after the map function returned and the schema, its copy in the temp
  package and the schema updates were saved; if the signal check raises, the exception
  leaves \<open>spool_files\<close> and neither \<open>commit_temp_load_package\<close> nor
  \<open>delete_extracted_files\<close> is called; whenever the commit is called, the signal
  check was called before it and returned; and whenever the extracted files are
  deleted, the commit was called before and returned.
\<close>

theorem spool_files_signal_before_commit:
  assumes "spool_files env schema_name load_id map_f files self = (self', r)"
  shows "\<exists>new. calls self' = calls self @ new
     \<and> (Raise_if_signalled \<in> set new \<longrightarrow>
          (\<exists>schema ups. takeWhile (\<lambda>x. x \<noteq> Raise_if_signalled) new
             = [Load_schema schema_name, Map_f map_f load_id files, Save_schema schema,
                Save_temp_schema schema load_id, Save_temp_schema_updates load_id ups]))
     \<and> (\<forall>e. Raise_if_signalled \<in> set new
            \<and> call_raises env (calls self @ takeWhile (\<lambda>x. x \<noteq> Raise_if_signalled) new)
                  Raise_if_signalled = Some e
          \<longrightarrow> r = Some e \<and> (\<forall>l. Commit_temp_load_package l \<notin> set new)
              \<and> (\<forall>fs. Delete_extracted_files fs \<notin> set new))
     \<and> (\<forall>l. Commit_temp_load_package l \<in> set new \<longrightarrow>
           Raise_if_signalled \<in> set (takeWhile (\<lambda>x. x \<noteq> Commit_temp_load_package l) new)
           \<and> call_raises env (calls self @ takeWhile (\<lambda>x. x \<noteq> Raise_if_signalled) new)
                 Raise_if_signalled = None)
     \<and> (\<forall>fs. Delete_extracted_files fs \<in> set new \<longrightarrow>
           Commit_temp_load_package load_id \<in> set (takeWhile (\<lambda>x. x \<noteq> Delete_extracted_files fs) new)
           \<and> call_raises env (calls self @ takeWhile (\<lambda>x. x \<noteq> Commit_temp_load_package load_id) new)
                 (Commit_temp_load_package load_id) = None)"
  using assms
  by (auto simp: spool_files_def load_or_create_schema_def call_def and_then_def Let_def
      split: sum.splits error.splits prod.splits option.splits)


text \<open>
  With the signal set, \<open>spool_files\<close> on the first file stops at the signal check.
\<close>

theorem spool_files_signal_before_commit_witness:
  "snd (spool_files (example_driver_env True False) ''s1'' ''1700.1'' Map_parallel
          [''s1.t1.1.jsonl''] example_normalize) = Some SignalReceivedException
   \<and> Commit_temp_load_package ''1700.1''
         \<notin> set (calls (fst (spool_files (example_driver_env True False) ''s1'' ''1700.1'' Map_parallel
                               [''s1.t1.1.jsonl''] example_normalize)))
   \<and> Delete_extracted_files [''s1.t1.1.jsonl'']
         \<notin> set (calls (fst (spool_files (example_driver_env True False) ''s1'' ''1700.1'' Map_parallel
                               [''s1.t1.1.jsonl''] example_normalize)))"
proof -
  let ?E = "example_driver_env True False"
  let ?res = "spool_files ?E ''s1'' ''1700.1'' Map_parallel [''s1.t1.1.jsonl''] example_normalize"
  have c: "calls (fst ?res)
             = [Load_schema ''s1'', Map_f Map_parallel ''1700.1'' [''s1.t1.1.jsonl''], Save_schema [],
                Save_temp_schema [] ''1700.1'', Save_temp_schema_updates ''1700.1'' [],
                Raise_if_signalled]"
    by code_simp
  have "?res = (fst ?res, snd ?res)" by simp
  from spool_files_signal_before_commit [OF this] obtain new where
    n: "calls (fst ?res) = calls example_normalize @ new"
    and sig: "\<forall>e. Raise_if_signalled \<in> set new
            \<and> call_raises ?E (calls example_normalize @ takeWhile (\<lambda>x. x \<noteq> Raise_if_signalled) new)
                  Raise_if_signalled = Some e
          \<longrightarrow> snd ?res = Some e \<and> (\<forall>l. Commit_temp_load_package l \<notin> set new)
              \<and> (\<forall>fs. Delete_extracted_files fs \<notin> set new)"
    by blast
  from n c have new: "new = [Load_schema ''s1'', Map_f Map_parallel ''1700.1'' [''s1.t1.1.jsonl''],
                Save_schema [], Save_temp_schema [] ''1700.1'', Save_temp_schema_updates ''1700.1'' [],
                Raise_if_signalled]"
    by (simp add: example_normalize_def)
  have "Raise_if_signalled \<in> set new" by (simp add: new)
  moreover have "call_raises ?E (calls example_normalize @ takeWhile (\<lambda>x. x \<noteq> Raise_if_signalled) new)
                  Raise_if_signalled = Some SignalReceivedException"
    by (simp add: example_driver_env_def)
  ultimately have "snd ?res = Some SignalReceivedException \<and> (\<forall>l. Commit_temp_load_package l \<notin> set new)
              \<and> (\<forall>fs. Delete_extracted_files fs \<notin> set new)"
    using sig by blast
  then show ?thesis unfolding n by (simp add: example_normalize_def)
qed

lemma spool_files_map_raises:
  "load_or_create_schema env schema_name self = (self1, Inr schema) \<Longrightarrow>
   map_f_result env map_f (calls self1) schema load_id files = (schema1, Inl e) \<Longrightarrow>
   spool_files env schema_name load_id map_f files self
     = (self1\<lparr>calls := calls self1 @ [Map_f map_f load_id files]\<rparr>, Some e)"
  by (simp add: spool_files_def Let_def)

text \<open>
  Claim C4.  After the temp load package has been created: when
  \<open>map_parallel\<close> raises a column-coercion conflict inside \<open>spool_files\<close>,
  \<open>spool_schema_files\<close> does what remains to be done from there, that is it creates
  the temp load package for the same load id again and, unless that fails, runs
  \<open>spool_files\<close> with \<open>map_single\<close> on the same files, whose outcome is its own;
  and when the first \<open>spool_files\<close> raises anything that is not a column-coercion
  conflict, that exception leaves \<open>spool_schema_files\<close> with nothing more called.
\<close>

theorem spool_schema_files_fallback:
  assumes "call_raises env (calls self) (Create_temp_load_package load_id) = None"
  shows "(\<forall>self1 schema schema1 exc.
            load_or_create_schema env schema_name
                (self\<lparr>calls := calls self @ [Create_temp_load_package load_id]\<rparr>) = (self1, Inr schema)
            \<and> map_f_result env Map_parallel (calls self1) schema load_id files
                = (schema1, Inl (CannotCoerceColumnException exc))
          \<longrightarrow> spool_schema_files env load_id schema_name files self =
                (case call env (Create_temp_load_package load_id)
                        (self1\<lparr>calls := calls self1 @ [Map_f Map_parallel load_id files]\<rparr>) of
                   (self3, Some e) \<Rightarrow> (self3, Inl e)
                 | (self3, None) \<Rightarrow>
                     (case spool_files env schema_name load_id Map_single files self3 of
                        (self4, Some e) \<Rightarrow> (self4, Inl e)
                      | (self4, None) \<Rightarrow> (self4, Inr load_id))))
       \<and> (\<forall>self2 e.
            spool_files env schema_name load_id Map_parallel files
                (self\<lparr>calls := calls self @ [Create_temp_load_package load_id]\<rparr>) = (self2, Some e)
            \<and> (\<forall>exc. e \<noteq> CannotCoerceColumnException exc)
          \<longrightarrow> spool_schema_files env load_id schema_name files self = (self2, Inl e))"
proof (intro conjI allI impI)
  fix self1 schema schema1 exc
  assume "load_or_create_schema env schema_name
                (self\<lparr>calls := calls self @ [Create_temp_load_package load_id]\<rparr>) = (self1, Inr schema)
            \<and> map_f_result env Map_parallel (calls self1) schema load_id files
                = (schema1, Inl (CannotCoerceColumnException exc))"
  then have a1: "load_or_create_schema env schema_name
                (self\<lparr>calls := calls self @ [Create_temp_load_package load_id]\<rparr>) = (self1, Inr schema)"
    and a2: "map_f_result env Map_parallel (calls self1) schema load_id files
                = (schema1, Inl (CannotCoerceColumnException exc))"
    by simp_all
  from spool_files_map_raises [OF a1 a2] assms show "spool_schema_files env load_id schema_name files self =
                (case call env (Create_temp_load_package load_id)
                        (self1\<lparr>calls := calls self1 @ [Map_f Map_parallel load_id files]\<rparr>) of
                   (self3, Some e) \<Rightarrow> (self3, Inl e)
                 | (self3, None) \<Rightarrow>
                     (case spool_files env schema_name load_id Map_single files self3 of
                        (self4, Some e) \<Rightarrow> (self4, Inl e)
                      | (self4, None) \<Rightarrow> (self4, Inr load_id)))"
    by (simp add: spool_schema_files_def call_def split: option.splits)
next
  fix self2 e
  assume "spool_files env schema_name load_id Map_parallel files
                (self\<lparr>calls := calls self @ [Create_temp_load_package load_id]\<rparr>) = (self2, Some e)
            \<and> (\<forall>exc. e \<noteq> CannotCoerceColumnException exc)"
  with assms show "spool_schema_files env load_id schema_name files self = (self2, Inl e)"
    by (cases e) (simp_all add: spool_schema_files_def call_def)
qed

text \<open>
  With \<open>map_parallel\<close> in conflict, the package of the first file is created twice
  and committed from the single-threaded run.
\<close>

theorem spool_schema_files_fallback_witness:
  "spool_schema_files (example_driver_env False True) ''1700.1'' ''s1'' [''s1.t1.1.jsonl''] example_normalize
     = (\<lparr>row_counts_n = [''t1'' \<mapsto> 5],
         calls = [Create_temp_load_package ''1700.1'', Load_schema ''s1'',
                  Map_f Map_parallel ''1700.1'' [''s1.t1.1.jsonl''],
                  Create_temp_load_package ''1700.1'', Load_schema ''s1'',
                  Map_f Map_single ''1700.1'' [''s1.t1.1.jsonl''], Save_schema [],
                  Save_temp_schema [] ''1700.1'', Save_temp_schema_updates ''1700.1'' [],
                  Raise_if_signalled, Commit_temp_load_package ''1700.1'',
                  Delete_extracted_files [''s1.t1.1.jsonl'']]\<rparr>,
        Inr ''1700.1'')"
proof -
  let ?E = "example_driver_env False True"
  let ?self1 = "\<lparr>row_counts_n = [''t0'' \<mapsto> (1::int)],
                  calls = [Create_temp_load_package ''1700.1'', Load_schema ''s1'']
                    :: (string list, string list) nevent list\<rparr>"
  have a: "call_raises ?E (calls example_normalize) (Create_temp_load_package ''1700.1'') = None"
    by (simp add: example_driver_env_def)
  have l: "load_or_create_schema ?E ''s1''
             (example_normalize\<lparr>calls := calls example_normalize @ [Create_temp_load_package ''1700.1'']\<rparr>)
           = (?self1, Inr [])"
    by (simp add: load_or_create_schema_def example_driver_env_def example_normalize_def)
  have m: "map_f_result ?E Map_parallel (calls ?self1) [] ''1700.1'' [''s1.t1.1.jsonl'']
             = ([], Inl (CannotCoerceColumnException ''x''))"
    by (simp add: example_driver_env_def)
  from spool_schema_files_fallback [OF a, of "''s1''" "[''s1.t1.1.jsonl'']"] l m
  have "spool_schema_files ?E ''1700.1'' ''s1'' [''s1.t1.1.jsonl''] example_normalize =
          (case call ?E (Create_temp_load_package ''1700.1'')
                  (?self1\<lparr>calls := calls ?self1 @ [Map_f Map_parallel ''1700.1'' [''s1.t1.1.jsonl'']]\<rparr>) of
             (self3, Some e) \<Rightarrow> (self3, Inl e)
           | (self3, None) \<Rightarrow>
               (case spool_files ?E ''s1'' ''1700.1'' Map_single [''s1.t1.1.jsonl''] self3 of
                  (self4, Some e) \<Rightarrow> (self4, Inl e)
                | (self4, None) \<Rightarrow> (self4, Inr ''1700.1'')))"
    by blast
  then show ?thesis
    by (simp add: call_def spool_files_def load_or_create_schema_def and_then_def Let_def
          example_driver_env_def)
qed

lemma spool_files_success:
  "spool_files env schema_name load_id map_f files self = (self', None) \<Longrightarrow>
   \<exists>schema schema1 ups.
      map_f_result env map_f (calls self @ [Load_schema schema_name]) schema load_id files
        = (schema1, Inr (ups, row_counts_n self'))
      \<and> calls self' = calls self @
            [Load_schema schema_name, Map_f map_f load_id files,
             Save_schema (pop_x_normalizer env schema1),
             Save_temp_schema (pop_x_normalizer env schema1) load_id,
             Save_temp_schema_updates load_id (merge_schema_updates env ups),
             Raise_if_signalled, Commit_temp_load_package load_id, Delete_extracted_files files]"
  by (auto simp: spool_files_def load_or_create_schema_def call_def and_then_def Let_def
      split: sum.splits error.splits prod.splits option.splits) blast+

lemma spool_schema_files_success:
  assumes "spool_schema_files env load_id schema_name files self = (self', Inr l)"
  shows "\<exists>kind h schema schema1 ups.
      map_f_result env kind h schema load_id files = (schema1, Inr (ups, row_counts_n self'))
      \<and> calls self' = h @
            [Map_f kind load_id files,
             Save_schema (pop_x_normalizer env schema1),
             Save_temp_schema (pop_x_normalizer env schema1) load_id,
             Save_temp_schema_updates load_id (merge_schema_updates env ups),
             Raise_if_signalled, Commit_temp_load_package load_id, Delete_extracted_files files]"
proof -
  let ?self1 = "self\<lparr>calls := calls self @ [Create_temp_load_package load_id]\<rparr>"
  obtain self2 r2 where p: "spool_files env schema_name load_id Map_parallel files ?self1 = (self2, r2)"
    by (cases "spool_files env schema_name load_id Map_parallel files ?self1")
  have "\<exists>kind self3. spool_files env schema_name load_id kind files self3 = (self', None)"
  proof (cases r2)
    case None
    with assms p have "self' = self2"
      by (auto simp: spool_schema_files_def call_def split: option.splits)
    with p None show ?thesis by blast
  next
    case (Some e)
    with assms p obtain self3 where
      "spool_files env schema_name load_id Map_single files self3 = (self', None)"
      by (cases e) (auto simp: spool_schema_files_def call_def split: option.splits prod.splits)
    then show ?thesis by blast
  qed
  then obtain kind self3 where "spool_files env schema_name load_id kind files self3 = (self', None)"
    by blast
  from spool_files_success [OF this] obtain schema schema1 ups where
    m: "map_f_result env kind (calls self3 @ [Load_schema schema_name]) schema load_id files
        = (schema1, Inr (ups, row_counts_n self'))"
    and c: "calls self' = calls self3 @
            [Load_schema schema_name, Map_f kind load_id files,
             Save_schema (pop_x_normalizer env schema1),
             Save_temp_schema (pop_x_normalizer env schema1) load_id,
             Save_temp_schema_updates load_id (merge_schema_updates env ups),
             Raise_if_signalled, Commit_temp_load_package load_id, Delete_extracted_files files]"
    by blast
  from c have "calls self' = (calls self3 @ [Load_schema schema_name]) @
            [Map_f kind load_id files,
             Save_schema (pop_x_normalizer env schema1),
             Save_temp_schema (pop_x_normalizer env schema1) load_id,
             Save_temp_schema_updates load_id (merge_schema_updates env ups),
             Raise_if_signalled, Commit_temp_load_package load_id, Delete_extracted_files files]"
    by simp
  with m show ?thesis by blast
qed

lemma spool_groups_success:
  "spool_groups env (gs @ [(schema_name, schema_files)]) self = (self', None) \<Longrightarrow>
   \<exists>kind h schema load_id schema1 ups.
      map_f_result env kind h schema load_id schema_files = (schema1, Inr (ups, row_counts_n self'))
      \<and> calls self' = h @
            [Map_f kind load_id schema_files,
             Save_schema (pop_x_normalizer env schema1),
             Save_temp_schema (pop_x_normalizer env schema1) load_id,
             Save_temp_schema_updates load_id (merge_schema_updates env ups),
             Raise_if_signalled, Commit_temp_load_package load_id,
             Delete_extracted_files schema_files, Collector_exit]"
proof (induction gs arbitrary: self)
  case Nil
  then obtain self2 l where
    s: "spool_schema_files env (now_timestamp env (calls self)) schema_name schema_files
       (self\<lparr>calls := calls self @
                    [Collector_enter (''Normalize '' @ schema_name @ '' in '' @ now_timestamp env (calls self)),
                     Collector_update ''Files'' 0 (Some (int (length schema_files))),
                     Collector_update ''Items'' 0 None]\<rparr>) = (self2, Inr l)"
    and e: "self' = self2\<lparr>calls := calls self2 @ [Collector_exit]\<rparr>"
    by (auto simp: Let_def split: prod.splits sum.splits)
  from spool_schema_files_success [OF s] obtain kind h schema schema1 ups where
    "map_f_result env kind h schema (now_timestamp env (calls self)) schema_files
       = (schema1, Inr (ups, row_counts_n self2))"
    "calls self2 = h @
            [Map_f kind (now_timestamp env (calls self)) schema_files,
             Save_schema (pop_x_normalizer env schema1),
             Save_temp_schema (pop_x_normalizer env schema1) (now_timestamp env (calls self)),
             Save_temp_schema_updates (now_timestamp env (calls self)) (merge_schema_updates env ups),
             Raise_if_signalled, Commit_temp_load_package (now_timestamp env (calls self)),
             Delete_extracted_files schema_files]"
    by blast
  with e have "map_f_result env kind h schema (now_timestamp env (calls self)) schema_files
       = (schema1, Inr (ups, row_counts_n self'))
     \<and> calls self' = h @
            [Map_f kind (now_timestamp env (calls self)) schema_files,
             Save_schema (pop_x_normalizer env schema1),
             Save_temp_schema (pop_x_normalizer env schema1) (now_timestamp env (calls self)),
             Save_temp_schema_updates (now_timestamp env (calls self)) (merge_schema_updates env ups),
             Raise_if_signalled, Commit_temp_load_package (now_timestamp env (calls self)),
             Delete_extracted_files schema_files, Collector_exit]"
    by simp
  then show ?case by blast
next
  case (Cons g gs)
  obtain n fs where g: "g = (n, fs)" by (cases g)
  from Cons.prems obtain self1 where
    "spool_groups env (gs @ [(schema_name, schema_files)]) self1 = (self', None)"
    by (auto simp: g Let_def split: prod.splits sum.splits)
  from Cons.IH [OF this] show ?case .
qed

text \<open>
  Claim C10.  After a run that returns: when there was no file, the row counts of the
  instance are empty; otherwise the last call of a map function in the run was made on
  the files of the last schema group, and the row counts of the instance are exactly
  the row counts that this call returned, whatever the groups before it counted.
\<close>

theorem run_row_counts_last_group:
  assumes "run env self = (self', Inr metrics)"
  shows "(list_files env (calls self) = [] \<longrightarrow> get_normalize_info self' = Map.empty)
       \<and> (\<forall>gs schema_name schema_files.
             list_files env (calls self) \<noteq> []
             \<and> group_by_schema env (list_files env (calls self)) = gs @ [(schema_name, schema_files)]
           \<longrightarrow> (\<exists>kind h schema load_id schema1 ups.
                  map_f_result env kind h schema load_id schema_files
                    = (schema1, Inr (ups, get_normalize_info self'))
                  \<and> calls self' = h @
                      [Map_f kind load_id schema_files,
                       Save_schema (pop_x_normalizer env schema1),
                       Save_temp_schema (pop_x_normalizer env schema1) load_id,
                       Save_temp_schema_updates load_id (merge_schema_updates env ups),
                       Raise_if_signalled, Commit_temp_load_package load_id,
                       Delete_extracted_files schema_files, Collector_exit,
                       List_files_to_normalize_sorted]))"
proof (intro conjI allI impI)
  assume "list_files env (calls self) = []"
  with assms show "get_normalize_info self' = Map.empty"
    by (auto simp: run_def get_normalize_info_def Let_def)
next
  fix gs schema_name schema_files
  assume a: "list_files env (calls self) \<noteq> []
             \<and> group_by_schema env (list_files env (calls self)) = gs @ [(schema_name, schema_files)]"
  with assms obtain self3 where
    s: "spool_groups env (gs @ [(schema_name, schema_files)])
       (self\<lparr>row_counts_n := Map.empty, calls := calls self @ [List_files_to_normalize_sorted]\<rparr>)
       = (self3, None)"
    and e: "self' = self3\<lparr>calls := calls self3 @ [List_files_to_normalize_sorted]\<rparr>"
    by (auto simp: run_def Let_def split: prod.splits option.splits)
  from spool_groups_success [OF s] obtain kind h schema load_id schema1 ups where
    "map_f_result env kind h schema load_id schema_files = (schema1, Inr (ups, row_counts_n self3))"
    "calls self3 = h @
            [Map_f kind load_id schema_files,
             Save_schema (pop_x_normalizer env schema1),
             Save_temp_schema (pop_x_normalizer env schema1) load_id,
             Save_temp_schema_updates load_id (merge_schema_updates env ups),
             Raise_if_signalled, Commit_temp_load_package load_id,
             Delete_extracted_files schema_files, Collector_exit]"
    by blast
  with e have "map_f_result env kind h schema load_id schema_files
                    = (schema1, Inr (ups, get_normalize_info self'))
                  \<and> calls self' = h @
                      [Map_f kind load_id schema_files,
                       Save_schema (pop_x_normalizer env schema1),
                       Save_temp_schema (pop_x_normalizer env schema1) load_id,
                       Save_temp_schema_updates load_id (merge_schema_updates env ups),
                       Raise_if_signalled, Commit_temp_load_package load_id,
                       Delete_extracted_files schema_files, Collector_exit,
                       List_files_to_normalize_sorted]"
    by (simp add: get_normalize_info_def)
  then show "\<exists>kind h schema load_id schema1 ups.
                  map_f_result env kind h schema load_id schema_files
                    = (schema1, Inr (ups, get_normalize_info self'))
                  \<and> calls self' = h @
                      [Map_f kind load_id schema_files,
                       Save_schema (pop_x_normalizer env schema1),
                       Save_temp_schema (pop_x_normalizer env schema1) load_id,
                       Save_temp_schema_updates load_id (merge_schema_updates env ups),
                       Raise_if_signalled, Commit_temp_load_package load_id,
                       Delete_extracted_files schema_files, Collector_exit,
                       List_files_to_normalize_sorted]"
    by blast
qed

text \<open>
  Two schema groups, five rows of \<open>t1\<close> in the first and three rows of \<open>t2\<close> in
  the second: after the run the instance knows of \<open>t2\<close> only.
\<close>

theorem run_row_counts_last_group_witness:
  "get_normalize_info (fst (run (example_driver_env False False) example_normalize)) = [''t2'' \<mapsto> 3]"
proof -
  let ?E = "example_driver_env False False"
  let ?res = "run ?E example_normalize"
  have r: "snd ?res = Inr (False, 0)" by code_simp
  then have "?res = (fst ?res, Inr (False, 0))" by (metis prod.collapse)
  note t = run_row_counts_last_group [OF this]
  have f: "list_files ?E (calls example_normalize) \<noteq> []
           \<and> group_by_schema ?E (list_files ?E (calls example_normalize))
               = [(''s1'', [''s1.t1.1.jsonl''])] @ [(''s2'', [''s2.t2.1.jsonl''])]"
    by (simp add: example_driver_env_def example_normalize_def)
  from t f obtain kind h schema load_id schema1 ups where
    "map_f_result ?E kind h schema load_id [''s2.t2.1.jsonl'']
       = (schema1, Inr (ups, get_normalize_info (fst ?res)))"
    by blast
  then show ?thesis by (simp add: example_driver_env_def)
qed

end
